theory Spec2Isabelle
  imports Complex_Main "HOL-Library.Char_ord" "HOL-Library.List_Lexorder"
    "HOL-Library.Product_Lexorder" "HOL-Library.Sublist" "HOL-Library.Multiset"
    "HOL-Library.Log_Nat"
begin

section \<open>Shared modelling of Python values\<close>

text \<open>
  File names, identifiers and messages are Python \<open>str\<close> values on which the programs
  only concatenate, compare, test suffixes and sort. They are modelled as \<open>string\<close>
  (the UTF-8 bytes of the text): concatenation, equality, prefix and suffix tests and
  the code-point order of Python coincide with the byte-wise ones.

  A parsed JSON document is a value of the datatype \<open>json\<close>. A Python \<open>dict\<close> is kept
  as an association list in iteration (insertion) order.
\<close>

subsection \<open>Python floats\<close>

text \<open>
  A Python \<open>float\<close> is an IEEE 754 binary64 value: a finite number (\<open>Finite r\<close>, with
  \<open>Finite 0\<close> for \<open>0.0\<close>), the negative zero, an infinity or a NaN. Python's \<open>json\<close>
  reads all of them. An arithmetic result is the exact result rounded to the nearest
  double, ties to the even significand; a result of magnitude \<open>2^1024\<close> or more after
  rounding is an infinity.
\<close>

datatype pyfloat = Finite rat | NegZero | PosInf | NegInf | NaN

definition pow2 :: "int \<Rightarrow> rat" where
  "pow2 k = (if 0 \<le> k then 2 ^ nat k else 1 / 2 ^ nat (- k))"

text \<open>\<open>flog2 x\<close> is the integer part of the binary logarithm of \<open>x \<ge> 1\<close>, \<open>ilog2 a\<close> of
  any \<open>a > 0\<close>.\<close>

definition flog2 :: "rat \<Rightarrow> int" where
  "flog2 x = int (floorlog 2 (nat \<lfloor>x\<rfloor>)) - 1"

definition neg_log2 :: "rat \<Rightarrow> int" where
  "neg_log2 y = (if y = pow2 (flog2 y) then - flog2 y else - (flog2 y + 1))"

definition ilog2 :: "rat \<Rightarrow> int" where
  "ilog2 a = (if 1 \<le> a then flog2 a else neg_log2 (1 / a))"

definition round_half_even :: "rat \<Rightarrow> int" where
  "round_half_even r =
     (if r - of_int \<lfloor>r\<rfloor> < 1 / 2 then \<lfloor>r\<rfloor>
      else if 1 / 2 < r - of_int \<lfloor>r\<rfloor> then \<lfloor>r\<rfloor> + 1
      else if even \<lfloor>r\<rfloor> then \<lfloor>r\<rfloor> else \<lfloor>r\<rfloor> + 1)"

text \<open>
  Rounding a positive \<open>a\<close> with binary exponent \<open>e\<close> to 53 significant bits: to a
  multiple of \<open>2^(e - 52)\<close>. Below \<open>2^(-1022)\<close> the exponent stays at \<open>-1022\<close>
  (subnormal numbers).
\<close>

definition round_to :: "int \<Rightarrow> rat \<Rightarrow> rat" where
  "round_to e a = of_int (round_half_even (a / pow2 (e - 52))) * pow2 (e - 52)"

definition pack :: "bool \<Rightarrow> rat \<Rightarrow> pyfloat" where
  "pack neg v =
     (if pow2 1024 \<le> v then (if neg then NegInf else PosInf)
      else if v = 0 then (if neg then NegZero else Finite 0)
      else Finite (if neg then - v else v))"

definition round_double :: "rat \<Rightarrow> pyfloat" where
  "round_double x =
     (if x = 0 then Finite 0
      else pack (x < 0) (round_to (max (ilog2 \<bar>x\<bar>) (- 1022)) \<bar>x\<bar>))"

text \<open>The value of a finite float, and the sign of a float.\<close>

fun fval :: "pyfloat \<Rightarrow> rat" where
  "fval (Finite r) = r"
| "fval _ = 0"

fun is_finite :: "pyfloat \<Rightarrow> bool" where
  "is_finite (Finite r) = True"
| "is_finite NegZero = True"
| "is_finite _ = False"

fun is_neg :: "pyfloat \<Rightarrow> bool" where
  "is_neg (Finite r) = (r < 0)"
| "is_neg NegZero = True"
| "is_neg NegInf = True"
| "is_neg _ = False"

text \<open>\<open>a - b\<close> on floats. A zero difference is \<open>0.0\<close>, but \<open>-0.0 - 0.0\<close> is \<open>-0.0\<close>.\<close>

definition fsub :: "pyfloat \<Rightarrow> pyfloat \<Rightarrow> pyfloat" where
  "fsub a b =
     (if a = NaN \<or> b = NaN then NaN
      else if a = PosInf then (if b = PosInf then NaN else PosInf)
      else if a = NegInf then (if b = NegInf then NaN else NegInf)
      else if b = PosInf then NegInf
      else if b = NegInf then PosInf
      else if a = NegZero \<and> b = Finite 0 then NegZero
      else round_double (fval a - fval b))"

text \<open>\<open>a * b\<close> on floats. Zero times infinity is a NaN; the sign of a zero or an
  infinity is the product of the signs.\<close>

definition fmul :: "pyfloat \<Rightarrow> pyfloat \<Rightarrow> pyfloat" where
  "fmul a b =
     (if a = NaN \<or> b = NaN then NaN
      else if is_finite a \<and> is_finite b
           then (if fval a * fval b = 0
                 then (if is_neg a \<noteq> is_neg b then NegZero else Finite 0)
                 else round_double (fval a * fval b))
      else if (is_finite a \<and> fval a = 0) \<or> (is_finite b \<and> fval b = 0) then NaN
      else if is_neg a \<noteq> is_neg b then NegInf else PosInf)"

text \<open>The order of floats: a comparison with a NaN is false, the two zeros are equal.\<close>

fun forder :: "pyfloat \<Rightarrow> int \<times> rat" where
  "forder NegInf = (- 1, 0)"
| "forder PosInf = (1, 0)"
| "forder f = (0, fval f)"

definition fgt :: "pyfloat \<Rightarrow> pyfloat \<Rightarrow> bool" where
  "fgt a b = (a \<noteq> NaN \<and> b \<noteq> NaN \<and> forder b < forder a)"

definition fle :: "pyfloat \<Rightarrow> pyfloat \<Rightarrow> bool" where
  "fle a b = (a \<noteq> NaN \<and> b \<noteq> NaN \<and> forder a \<le> forder b)"

text \<open>\<open>max(0.0, d)\<close>: the builtin returns its first argument unless a later one is
  greater.\<close>

definition max_zero :: "pyfloat \<Rightarrow> pyfloat" where
  "max_zero d = (if fgt d (Finite 0) then d else Finite 0)"

subsection \<open>JSON values\<close>

datatype json =
    JNull
  | JBool bool
  | JInt int
  | JFloat pyfloat
  | JStr string
  | JList "json list"
  | JObj "(string \<times> json) list"

text \<open>\<open>d.get(k)\<close> on a dict.\<close>

definition dict_get :: "(string \<times> json) list \<Rightarrow> string \<Rightarrow> json option" where
  "dict_get d k = map_of d k"

text \<open>\<open>isinstance(x, int)\<close>: Python's \<open>bool\<close> is a subclass of \<open>int\<close>
  (\<open>True\<close> is the integer 1, \<open>False\<close> the integer 0).\<close>

fun py_int :: "json \<Rightarrow> int option" where
  "py_int (JInt i) = Some i"
| "py_int (JBool b) = Some (if b then 1 else 0)"
| "py_int _ = None"

text \<open>\<open>isinstance(x, (int, float))\<close>.\<close>

fun is_number :: "json \<Rightarrow> bool" where
  "is_number (JInt i) = True"
| "is_number (JBool b) = True"
| "is_number (JFloat f) = True"
| "is_number _ = False"

text \<open>Truthiness of a JSON value, as \<open>x or default\<close> and \<open>if x\<close> test it.\<close>

fun truthy :: "json \<Rightarrow> bool" where
  "truthy JNull = False"
| "truthy (JBool b) = b"
| "truthy (JInt i) = (i \<noteq> 0)"
| "truthy (JFloat f) = (f \<noteq> Finite 0 \<and> f \<noteq> NegZero)"
| "truthy (JStr s) = (s \<noteq> [])"
| "truthy (JList xs) = (xs \<noteq> [])"
| "truthy (JObj d) = (d \<noteq> [])"

text \<open>\<open>s.startswith(p)\<close> and \<open>s.endswith(p)\<close>.\<close>

definition startswith :: "string \<Rightarrow> string \<Rightarrow> bool" where
  "startswith s p = (take (length p) s = p)"

definition endswith :: "string \<Rightarrow> string \<Rightarrow> bool" where
  "endswith s p = (length p \<le> length s \<and> drop (length s - length p) s = p)"

text \<open>
  \<open>PurePath.stem\<close> (pathlib up to Python 3.12): the name up to its last dot, unless
  that dot is the first or the last character of the name.
\<close>

definition rfind_dot :: "string \<Rightarrow> nat option" where
  "rfind_dot s =
     (if CHR ''.'' \<in> set s
      then Some (length s - 1 - length (takeWhile (\<lambda>c. c \<noteq> CHR ''.'') (rev s)))
      else None)"

definition path_stem :: "string \<Rightarrow> string" where
  "path_stem name =
     (case rfind_dot name of
        None \<Rightarrow> name
      | Some i \<Rightarrow> if 0 < i \<and> i < length name - 1 then take i name else name)"

text \<open>Exceptions that end a run.\<close>

datatype error =
    SystemExit string
  | JSONDecodeError
  | AttributeError
  | TypeError
  | OverflowError
  | ImageOpenError
  | FileNotFoundError string

text \<open>
  \<open>float(x)\<close> on a number: an \<open>int\<close> is rounded to the nearest double, and one too
  large for a double raises \<open>OverflowError\<close>; a \<open>float\<close> is returned as it is.
\<close>

definition float_of_int :: "int \<Rightarrow> error + pyfloat" where
  "float_of_int i =
     (case round_double (of_int i) of
        PosInf \<Rightarrow> Inl OverflowError
      | NegInf \<Rightarrow> Inl OverflowError
      | f \<Rightarrow> Inr f)"

fun py_float :: "json \<Rightarrow> error + pyfloat" where
  "py_float (JInt i) = float_of_int i"
| "py_float (JBool b) = Inr (Finite (if b then 1 else 0))"
| "py_float (JFloat f) = Inr f"
| "py_float _ = Inl TypeError"

section \<open>Detection Schema Converter (convert\_deepfashion2\_to\_coco.py)\<close>

record coco_image =
  img_id :: nat
  file_name :: string
  width :: int
  height :: int

record coco_annotation =
  ann_ident :: nat
  image_ident :: nat
  category_id :: int
  bbox :: "pyfloat \<times> pyfloat \<times> pyfloat \<times> pyfloat"
  area :: pyfloat
  iscrowd :: nat
  segmentation :: "json list"

record coco_category =
  cat_ident :: int
  cat_name :: string
  supercategory :: string

record coco =
  images :: "coco_image list"
  annotations :: "coco_annotation list"
  categories :: "coco_category list"

text \<open>The mutable state of \<open>main\<close>'s loop: the bundle under construction, the
  category registry \<open>cat_id_to_name\<close> (a dict, in insertion order) and the two counters.\<close>

record conv_state =
  st_images :: "coco_image list"
  st_annotations :: "coco_annotation list"
  cat_id_to_name :: "(int \<times> string) list"
  image_id :: nat
  ann_id :: nat

text \<open>\<open>d.setdefault(k, v)\<close>: stores only when the key is absent.\<close>

definition setdefault :: "int \<Rightarrow> string \<Rightarrow> (int \<times> string) list \<Rightarrow> (int \<times> string) list" where
  "setdefault k v d = (if k \<in> fst ` set d then d else d @ [(k, v)])"

text \<open>The box test: a list of exactly four numbers.\<close>

definition item_bbox :: "(string \<times> json) list \<Rightarrow> (json \<times> json \<times> json \<times> json) option" where
  "item_bbox v =
     (case dict_get v ''bounding_box'' of
        Some (JList [x1, y1, x2, y2]) \<Rightarrow>
          if is_number x1 \<and> is_number y1 \<and> is_number x2 \<and> is_number y2
          then Some (x1, y1, x2, y2) else None
      | _ \<Rightarrow> None)"

definition item_cat_id :: "(string \<times> json) list \<Rightarrow> int option" where
  "item_cat_id v = (case dict_get v ''category_id'' of Some j \<Rightarrow> py_int j | None \<Rightarrow> None)"

text \<open>\<open>if isinstance(cat_name, str): cat_id_to_name.setdefault(cat_id, cat_name)\<close>.\<close>

definition register_name :: "conv_state \<Rightarrow> int \<Rightarrow> (string \<times> json) list \<Rightarrow> conv_state" where
  "register_name st cat d =
     (case dict_get d ''category_name'' of
        Some (JStr n) \<Rightarrow> st\<lparr>cat_id_to_name := setdefault cat n (cat_id_to_name st)\<rparr>
      | _ \<Rightarrow> st)"

text \<open>
  The width and the height of a box, \<open>w = max(0.0, float(x2) - float(x1))\<close> and
  \<open>h = max(0.0, float(y2) - float(y1))\<close>: the four conversions run in this order, and
  each of them can end the run.
\<close>

definition box_size :: "json \<times> json \<times> json \<times> json \<Rightarrow> error + pyfloat \<times> pyfloat" where
  "box_size box =
     (case box of (x1, y1, x2, y2) \<Rightarrow>
        (case py_float x2 of
           Inl e \<Rightarrow> Inl e
         | Inr fx2 \<Rightarrow>
        (case py_float x1 of
           Inl e \<Rightarrow> Inl e
         | Inr fx1 \<Rightarrow>
        (case py_float y2 of
           Inl e \<Rightarrow> Inl e
         | Inr fy2 \<Rightarrow>
        (case py_float y1 of
           Inl e \<Rightarrow> Inl e
         | Inr fy1 \<Rightarrow> Inr (max_zero (fsub fx2 fx1), max_zero (fsub fy2 fy1)))))))"

text \<open>
  The rest of the loop body, from \<open>x1, y1, x2, y2 = bbox\<close> on: the size, the test
  \<open>w <= 1.0 or h <= 1.0\<close>, and the annotation, which converts \<open>x1\<close> and \<open>y1\<close> again.
\<close>

definition annotate :: "conv_state \<Rightarrow> int \<Rightarrow> json \<times> json \<times> json \<times> json \<Rightarrow> error + conv_state" where
  "annotate st cat box =
     (case box_size box of
        Inl e \<Rightarrow> Inl e
      | Inr (w, h) \<Rightarrow>
          if fle w (Finite 1) \<or> fle h (Finite 1) then Inr st
          else (case py_float (fst box) of
                  Inl e \<Rightarrow> Inl e
                | Inr fx1 \<Rightarrow>
               (case py_float (fst (snd box)) of
                  Inl e \<Rightarrow> Inl e
                | Inr fy1 \<Rightarrow>
                    Inr (st\<lparr>st_annotations := st_annotations st @
                               [\<lparr>ann_ident = ann_id st, image_ident = image_id st,
                                 category_id = cat, bbox = (fx1, fy1, w, h),
                                 area = fmul w h, iscrowd = 0, segmentation = []\<rparr>],
                             ann_id := ann_id st + 1\<rparr>))))"

text \<open>One iteration of \<open>for k, v in anno.items()\<close>.\<close>

definition process_item :: "conv_state \<Rightarrow> string \<times> json \<Rightarrow> error + conv_state" where
  "process_item st kv =
     (case kv of (k, v) \<Rightarrow>
        if \<not> startswith k ''item'' then Inr st
        else (case v of
            JObj d \<Rightarrow>
              (case item_bbox d of
                 None \<Rightarrow> Inr st
               | Some box \<Rightarrow>
                   (case item_cat_id d of
                      None \<Rightarrow> Inr st
                    | Some cat \<Rightarrow> annotate (register_name st cat d) cat box))
          | _ \<Rightarrow> Inr st))"

text \<open>The loop over the items of one document; an exception ends it.\<close>

fun process_items :: "conv_state \<Rightarrow> (string \<times> json) list \<Rightarrow> error + conv_state" where
  "process_items st [] = Inr st"
| "process_items st (kv # rest) =
     (case process_item st kv of
        Inl e \<Rightarrow> Inl e
      | Inr st1 \<Rightarrow> process_items st1 rest)"

text \<open>
  The split directory as the converter sees it: the files of \<open>annos/\<close> with the result of
  \<open>json.load\<close> (\<open>None\<close> when it raises), the file names of \<open>image/\<close>, and the image
  decoder (\<open>None\<close> when opening the image raises).
\<close>

record df2_split =
  annos :: "(string \<times> json option) list"
  image_files :: "string list"
  pil_size :: "string \<Rightarrow> (int \<times> int) option"

text \<open>\<open>sorted(annos_dir.glob("*.json"))\<close>.\<close>

definition iter_annos :: "(string \<times> json option) list \<Rightarrow> (string \<times> json option) list" where
  "iter_annos fs = sort_key fst (filter (\<lambda>f. endswith (fst f) ''.json'') fs)"

text \<open>The paired image: the \<open>.jpg\<close> name first, then the \<open>.png\<close> fallback.\<close>

definition find_image :: "string list \<Rightarrow> string \<Rightarrow> string option" where
  "find_image imgs img_stem =
     (if img_stem @ ''.jpg'' \<in> set imgs then Some (img_stem @ ''.jpg'')
      else if img_stem @ ''.png'' \<in> set imgs then Some (img_stem @ ''.png'')
      else None)"

text \<open>Width and height: the declared fields when both are integers, the decoder otherwise.\<close>

definition image_size :: "df2_split \<Rightarrow> (string \<times> json) list \<Rightarrow> string \<Rightarrow> (int \<times> int) option" where
  "image_size env anno img_name =
     (case (dict_get anno ''height'', dict_get anno ''width'') of
        (Some hj, Some wj) \<Rightarrow>
          (case (py_int hj, py_int wj) of
             (Some h, Some w) \<Rightarrow> Some (w, h)
           | _ \<Rightarrow> pil_size env img_name)
      | _ \<Rightarrow> pil_size env img_name)"

text \<open>The body of the loop for a document whose image was found: one image record,
  then the items, then \<open>image_id += 1\<close>.\<close>

definition process_doc :: "(string \<times> json) list \<Rightarrow> string \<Rightarrow> int \<times> int \<Rightarrow> conv_state
    \<Rightarrow> error + conv_state" where
  "process_doc d img_name wh st =
     (case process_items
             (st\<lparr>st_images := st_images st @
                   [\<lparr>img_id = image_id st, file_name = img_name,
                     width = fst wh, height = snd wh\<rparr>]\<rparr>) d of
        Inl e \<Rightarrow> Inl e
      | Inr st2 \<Rightarrow> Inr (st2\<lparr>image_id := image_id st2 + 1\<rparr>))"

text \<open>The loop over the annotation files; \<open>limit\<close> is \<open>args.limit\<close>.\<close>

fun conv_loop :: "df2_split \<Rightarrow> int \<Rightarrow> (string \<times> json option) list \<Rightarrow> conv_state
    \<Rightarrow> error + conv_state" where
  "conv_loop env limit [] st = Inr st"
| "conv_loop env limit ((name, parsed) # rest) st =
     (case parsed of
        None \<Rightarrow> Inl JSONDecodeError
      | Some anno \<Rightarrow>
          (case find_image (image_files env) (path_stem name) of
             None \<Rightarrow> conv_loop env limit rest st
           | Some img_name \<Rightarrow>
               (case anno of
                  JObj d \<Rightarrow>
                    (case image_size env d img_name of
                       None \<Rightarrow> Inl ImageOpenError
                     | Some wh \<Rightarrow>
                         (case process_doc d img_name wh st of
                            Inl e \<Rightarrow> Inl e
                          | Inr st1 \<Rightarrow>
                              if limit \<noteq> 0 \<and> limit \<le> int (image_id st1) then Inr st1
                              else conv_loop env limit rest st1))
                | _ \<Rightarrow> Inl AttributeError)))"

definition init_state :: conv_state where
  "init_state = \<lparr>st_images = [], st_annotations = [], cat_id_to_name = [],
                  image_id = 0, ann_id = 0\<rparr>"

text \<open>\<open>for cid in sorted(cat_id_to_name.keys())\<close>.\<close>

definition emit_categories :: "(int \<times> string) list \<Rightarrow> coco_category list" where
  "emit_categories reg =
     map (\<lambda>cid. \<lparr>cat_ident = cid, cat_name = the (map_of reg cid),
                 supercategory = ''clothing''\<rparr>)
       (sort (map fst reg))"

definition convert :: "df2_split \<Rightarrow> int \<Rightarrow> error + coco" where
  "convert env limit =
     (case conv_loop env limit (iter_annos (annos env)) init_state of
        Inl e \<Rightarrow> Inl e
      | Inr st \<Rightarrow> Inr \<lparr>images = st_images st, annotations = st_annotations st,
                       categories = emit_categories (cat_id_to_name st)\<rparr>)"

text \<open>The annotation document of the specification's scenario.\<close>

definition scenario_doc :: json where
  "scenario_doc =
     JObj [(''height'', JInt 300), (''width'', JInt 200),
           (''item1'', JObj [(''bounding_box'', JList [JInt 10, JInt 10, JInt 50, JInt 60]),
                             (''category_id'', JInt 3),
                             (''category_name'', JStr ''top'')])]"

text \<open>A surviving box: width and height above 1, and the area their product.\<close>

definition valid_box :: "coco_annotation \<Rightarrow> bool" where
  "valid_box a =
     (case bbox a of (x, y, w, h) \<Rightarrow>
        fgt w (Finite 1) \<and> fgt h (Finite 1) \<and> area a = fmul w h)"

text \<open>The image names of the annotation files whose image is found, in the order in which
  the loop visits the files.\<close>

definition paired_images :: "df2_split \<Rightarrow> string list" where
  "paired_images env =
     List.map_filter (\<lambda>f. find_image (image_files env) (path_stem (fst f)))
       (iter_annos (annos env))"

text \<open>The scenario document with the box \<open>[10, 10, 10.5, 60]\<close>, of width one half.\<close>

definition degenerate_doc :: json where
  "degenerate_doc =
     JObj [(''height'', JInt 300), (''width'', JInt 200),
           (''item1'', JObj [(''bounding_box'',
                               JList [JInt 10, JInt 10, JFloat (Finite (21 / 2)), JInt 60]),
                             (''category_id'', JInt 3),
                             (''category_name'', JStr ''top'')])]"

text \<open>The scenario document with the box \<open>[10, 10, 2 ** 1024, 60]\<close>, whose third
  coordinate is an integer too large for a double.\<close>

definition overflow_doc :: json where
  "overflow_doc =
     JObj [(''height'', JInt 300), (''width'', JInt 200),
           (''item1'', JObj [(''bounding_box'',
                               JList [JInt 10, JInt 10, JInt (2 ^ 1024), JInt 60]),
                             (''category_id'', JInt 3),
                             (''category_name'', JStr ''top'')])]"

text \<open>An image decoder that fails on every file.\<close>

definition no_decoder :: "string \<Rightarrow> (int \<times> int) option" where
  "no_decoder n = None"

definition scenario_split :: "json \<Rightarrow> df2_split" where
  "scenario_split doc =
     \<lparr>annos = [(''000001.json'', Some doc)], image_files = [''000001.jpg''],
      pil_size = no_decoder\<rparr>"

text \<open>The item of \<open>degenerate_doc\<close>, and a registry that already names category 3.\<close>

definition degenerate_item :: "(string \<times> json) list" where
  "degenerate_item =
     [(''bounding_box'', JList [JInt 10, JInt 10, JFloat (Finite (21 / 2)), JInt 60]),
      (''category_id'', JInt 3),
      (''category_name'', JStr ''top'')]"

definition named_state :: conv_state where
  "named_state = init_state\<lparr>cat_id_to_name := [(3, ''shirt'')]\<rparr>"


text \<open>A split of two documents, the second one visited first by its name.\<close>

definition two_doc_split :: df2_split where
  "two_doc_split =
     \<lparr>annos = [(''000002.json'', Some scenario_doc), (''000001.json'', Some degenerate_doc)],
      image_files = [''000001.jpg'', ''000002.jpg''],
      pil_size = no_decoder\<rparr>"

section \<open>Polyvore ingestion (ingest\_polyvore.py)\<close>

text \<open>
  \<open>str(x)\<close> and the formatting of \<open>{x}\<close> in an f-string: a string is itself, any other
  JSON value is printed by the builtin \<open>repr\<close>, which is a parameter of the model.
\<close>

definition py_str :: "(json \<Rightarrow> string) \<Rightarrow> json \<Rightarrow> string" where
  "py_str repr j = (case j of JStr s \<Rightarrow> s | _ \<Rightarrow> repr j)"

text \<open>\<open>d.get(k)\<close> as it is serialised: a missing key gives \<open>None\<close>, written \<open>null\<close>.\<close>

definition get_or_null :: "(string \<times> json) list \<Rightarrow> string \<Rightarrow> json" where
  "get_or_null d k = (case dict_get d k of Some v \<Rightarrow> v | None \<Rightarrow> JNull)"

text \<open>The composition rule of the item identifier, \<open>f"polyvore:{set_id}_{idx}"\<close>.\<close>

definition item_uid :: "string \<Rightarrow> string \<Rightarrow> string" where
  "item_uid set_id idx = ''polyvore:'' @ set_id @ ''_'' @ idx"

record item_ref =
  ref_item_uid :: string
  ref_set_id :: string
  ref_index :: json
  ref_categoryid :: json
  ref_name :: json
  ref_price :: json
  ref_likes :: json
  ref_image_url :: json

record outfit_record =
  o_source :: string
  o_split :: string
  o_outfit_uid :: string
  o_set_id :: string
  o_set_url :: json
  o_date :: json
  o_desc :: json
  o_items :: "item_ref list"

text \<open>The dict appended to \<open>norm_items\<close> for one item \<open>it\<close>.\<close>

definition norm_item :: "(json \<Rightarrow> string) \<Rightarrow> string \<Rightarrow> (string \<times> json) list \<Rightarrow> item_ref" where
  "norm_item repr set_id it =
     \<lparr>ref_item_uid = item_uid set_id (py_str repr (get_or_null it ''index'')),
      ref_set_id = set_id,
      ref_index = get_or_null it ''index'',
      ref_categoryid = get_or_null it ''categoryid'',
      ref_name = get_or_null it ''name'',
      ref_price = get_or_null it ''price'',
      ref_likes = get_or_null it ''likes'',
      ref_image_url = get_or_null it ''image''\<rparr>"

text \<open>
  \<open>(o.get("items", []) or [])[:8]\<close>: a missing or falsy value gives the empty list, a list
  its first eight entries; a non-empty string is sliced and fails at \<open>it.get\<close> on its
  first character; a number, \<open>True\<close> or a non-empty dict cannot be sliced.
\<close>

definition first_items :: "(string \<times> json) list \<Rightarrow> error + json list" where
  "first_items o_dict =
     (case dict_get o_dict ''items'' of
        None \<Rightarrow> Inr []
      | Some j \<Rightarrow>
          if \<not> truthy j then Inr []
          else (case j of
                  JList xs \<Rightarrow> Inr (take 8 xs)
                | JStr s \<Rightarrow> Inl AttributeError
                | _ \<Rightarrow> Inl TypeError))"

text \<open>\<open>for it in items[:8]\<close>: every entry has to be a dict.\<close>

fun norm_items :: "(json \<Rightarrow> string) \<Rightarrow> string \<Rightarrow> json list \<Rightarrow> error + item_ref list" where
  "norm_items repr set_id [] = Inr []"
| "norm_items repr set_id (JObj it # rest) =
     (case norm_items repr set_id rest of
        Inl e \<Rightarrow> Inl e
      | Inr refs \<Rightarrow> Inr (norm_item repr set_id it # refs))"
| "norm_items repr set_id (_ # rest) = Inl AttributeError"

text \<open>The body of \<open>for o in outfits\<close>: an error, a skipped outfit, or the record written.\<close>

definition process_outfit :: "(json \<Rightarrow> string) \<Rightarrow> string \<Rightarrow> json
    \<Rightarrow> error + outfit_record option" where
  "process_outfit repr split outfit =
     (case outfit of
        JObj d \<Rightarrow>
          (let set_id = py_str repr (case dict_get d ''set_id'' of Some v \<Rightarrow> v | None \<Rightarrow> JStr [])
           in if set_id = [] then Inr None
              else (case first_items d of
                      Inl e \<Rightarrow> Inl e
                    | Inr its \<Rightarrow>
                        (case norm_items repr set_id its of
                           Inl e \<Rightarrow> Inl e
                         | Inr refs \<Rightarrow>
                             Inr (Some \<lparr>o_source = ''polyvore'', o_split = split,
                                        o_outfit_uid = ''polyvore:'' @ set_id,
                                        o_set_id = set_id,
                                        o_set_url = get_or_null d ''set_url'',
                                        o_date = get_or_null d ''date'',
                                        o_desc = get_or_null d ''desc'',
                                        o_items = refs\<rparr>))))
      | _ \<Rightarrow> Inl AttributeError)"

text \<open>
  The records reach the output file one by one, so a run that fails leaves the records
  written before the failure: the loops return the lines written and the error, if any.
\<close>

fun write_outfits :: "(json \<Rightarrow> string) \<Rightarrow> string \<Rightarrow> json list
    \<Rightarrow> outfit_record list \<times> error option" where
  "write_outfits repr split [] = ([], None)"
| "write_outfits repr split (outfit # rest) =
     (case process_outfit repr split outfit of
        Inl e \<Rightarrow> ([], Some e)
      | Inr None \<Rightarrow> write_outfits repr split rest
      | Inr (Some r) \<Rightarrow>
          (case write_outfits repr split rest of (rs, e) \<Rightarrow> (r # rs, e)))"

text \<open>
  A split file: absent (\<open>None\<close>), unparsable (\<open>Some None\<close>) or parsed. \<open>split_map\<close> lists
  the three splits in the order of the source.
\<close>

record polyvore_dir =
  train_no_dup :: "json option option"
  valid_no_dup :: "json option option"
  test_no_dup :: "json option option"

definition split_map :: "polyvore_dir \<Rightarrow> (string \<times> string \<times> json option option) list" where
  "split_map dir =
     [(''train'', ''train_no_dup.json'', train_no_dup dir),
      (''val'', ''valid_no_dup.json'', valid_no_dup dir),
      (''test'', ''test_no_dup.json'', test_no_dup dir)]"

fun write_splits :: "(json \<Rightarrow> string) \<Rightarrow> (string \<times> string \<times> json option option) list
    \<Rightarrow> outfit_record list \<times> error option" where
  "write_splits repr [] = ([], None)"
| "write_splits repr ((split, path, content) # rest) =
     (case content of
        None \<Rightarrow> ([], Some (SystemExit (''Missing split file: '' @ path)))
      | Some None \<Rightarrow> ([], Some JSONDecodeError)
      | Some (Some (JList outfits)) \<Rightarrow>
          (case write_outfits repr split outfits of
             (rs, Some e) \<Rightarrow> (rs, Some e)
           | (rs, None) \<Rightarrow>
               (case write_splits repr rest of (rs', e) \<Rightarrow> (rs @ rs', e)))
      | Some (Some _) \<Rightarrow>
          ([], Some (SystemExit (''Unexpected JSON structure in '' @ path))))"

definition ingest_outfits :: "(json \<Rightarrow> string) \<Rightarrow> polyvore_dir
    \<Rightarrow> outfit_record list \<times> error option" where
  "ingest_outfits repr dir = write_splits repr (split_map dir)"

text \<open>
  A sample directory: one training outfit of nine items, two empty splits. \<open>repr_atom\<close> is
  Python's \<open>repr\<close> on \<open>None\<close>, the booleans and the integers, which is all the sample
  runs print.
\<close>

function dec_nat :: "nat \<Rightarrow> string" where
  "dec_nat n = (if n < 10 then [''0123456789'' ! n]
                else dec_nat (n div 10) @ [''0123456789'' ! (n mod 10)])"
  by pat_completeness auto
termination
  by (relation "measure id") auto

declare dec_nat.simps [simp del]

fun repr_atom :: "json \<Rightarrow> string" where
  "repr_atom JNull = ''None''"
| "repr_atom (JBool b) = (if b then ''True'' else ''False'')"
| "repr_atom (JInt i) = (if i < 0 then ''-'' @ dec_nat (nat (- i)) else dec_nat (nat i))"
| "repr_atom _ = []"

definition sample_item :: "int \<Rightarrow> json" where
  "sample_item i = JObj [(''index'', JInt i), (''name'', JStr ''shoe'')]"

definition sample_outfit :: "(string \<times> json) list" where
  "sample_outfit = [(''set_id'', JStr ''123''),
                    (''items'', JList (map sample_item [1, 2, 3, 4, 5, 6, 7, 8, 9]))]"

definition sample_polyvore :: polyvore_dir where
  "sample_polyvore =
     \<lparr>train_no_dup = Some (Some (JList [JObj sample_outfit])),
      valid_no_dup = Some (Some (JList [])),
      test_no_dup = Some (Some (JList []))\<rparr>"

definition sample_ref :: "int \<Rightarrow> string \<Rightarrow> item_ref" where
  "sample_ref i uid =
     \<lparr>ref_item_uid = uid, ref_set_id = ''123'', ref_index = JInt i, ref_categoryid = JNull,
      ref_name = JStr ''shoe'', ref_price = JNull, ref_likes = JNull, ref_image_url = JNull\<rparr>"

definition sample_record :: outfit_record where
  "sample_record =
     \<lparr>o_source = ''polyvore'', o_split = ''train'', o_outfit_uid = ''polyvore:123'',
      o_set_id = ''123'', o_set_url = JNull, o_date = JNull, o_desc = JNull,
      o_items = [sample_ref 1 ''polyvore:123_1'', sample_ref 2 ''polyvore:123_2'',
                 sample_ref 3 ''polyvore:123_3'', sample_ref 4 ''polyvore:123_4'',
                 sample_ref 5 ''polyvore:123_5'', sample_ref 6 ''polyvore:123_6'',
                 sample_ref 7 ''polyvore:123_7'', sample_ref 8 ''polyvore:123_8'']\<rparr>"

section \<open>Archive Integrity Checker (check\_deepfashion2\_zips.py)\<close>

text \<open>
  The archive library is a collaborator: an archive is its directory listing and its
  \<open>read\<close> operation, which returns the bytes of an entry or raises. The library raises
  \<open>RuntimeError\<close> for a bad password or a checksum mismatch; any other exception carries
  its type name and its message. \<open>RuntimeError\<close> stands for the class and its subclasses,
  which the first handler of \<open>_check_zip\<close> catches, \<open>OtherException\<close> for every other
  subclass of \<open>Exception\<close>, which the second one catches. Opening the archive can raise
  as well as reading an entry.
\<close>

datatype exn = RuntimeError string | OtherException string string

record zip_info =
  filename :: string
  is_dir :: bool
  flag_bits :: nat

record archive =
  infolist :: "zip_info list"
  read :: "string \<Rightarrow> string \<Rightarrow> exn + string"

text \<open>A path on disk: no file (\<open>None\<close>), a file the library cannot open, or an archive.\<close>

type_synonym zip_file = "(exn + archive) option"

definition ZIP_NAMES :: "string list" where
  "ZIP_NAMES = [''train.zip'', ''validation.zip'', ''test.zip'']"

definition OPTIONAL_ZIPS :: "string list" where
  "OPTIONAL_ZIPS = [''json_for_validation.zip'']"

text \<open>\<open>_pick_encrypted_json\<close>: the first entry that is no directory, is named \<open>*.json\<close> and
  has bit 0 of its flags set.\<close>

fun pick_encrypted_json :: "zip_info list \<Rightarrow> string option" where
  "pick_encrypted_json [] = None"
| "pick_encrypted_json (info # rest) =
     (if is_dir info then pick_encrypted_json rest
      else if \<not> endswith (filename info) ''.json'' then pick_encrypted_json rest
      else if flag_bits info mod 2 \<noteq> 0 then Some (filename info)
      else pick_encrypted_json rest)"

text \<open>\<open>bytes.lstrip()\<close> removes leading ASCII whitespace.\<close>

definition lstrip :: "string \<Rightarrow> string" where
  "lstrip data =
     dropWhile (\<lambda>c. c \<in> {CHR '' '', CHR 0x09, CHR 0x0A, CHR 0x0D, CHR 0x0B, CHR 0x0C}) data"

text \<open>The body of the \<open>try\<close> block of \<open>_check_zip\<close>.\<close>

definition check_zip_try :: "exn + archive \<Rightarrow> string \<Rightarrow> exn + bool \<times> string" where
  "check_zip_try opened password =
     (case opened of
        Inl e \<Rightarrow> Inl e
      | Inr zf \<Rightarrow>
          (case pick_encrypted_json (infolist zf) of
             None \<Rightarrow> Inr (False, ''no encrypted json entries found (unexpected)'')
           | Some target \<Rightarrow>
               if target = [] then Inr (False, ''no encrypted json entries found (unexpected)'')
               else (case read zf target password of
                       Inl e \<Rightarrow> Inl e
                     | Inr data \<Rightarrow>
                         if data = [] then Inr (False, ''read 0 bytes from '' @ target)
                         else if take 1 (lstrip data) \<notin> {''{'', ''[''}
                         then Inr (False, ''decrypted bytes do not look like JSON for '' @ target)
                         else Inr (True, ''ok (sample='' @ target @ '')''))))"

text \<open>\<open>_check_zip\<close>: the existence test, then the \<open>try\<close> block with its two handlers.\<close>

definition check_zip :: "string \<Rightarrow> zip_file \<Rightarrow> string \<Rightarrow> bool \<times> string" where
  "check_zip name zip_path password =
     (case zip_path of
        None \<Rightarrow> (False, ''missing: '' @ name)
      | Some opened \<Rightarrow>
          (case check_zip_try opened password of
             Inr r \<Rightarrow> r
           | Inl (RuntimeError msg) \<Rightarrow> (False, ''decrypt/read failed: '' @ msg)
           | Inl (OtherException ty msg) \<Rightarrow> (False, ''error: '' @ ty @ '': '' @ msg)))"

text \<open>The lines \<open>main\<close> prints, and its loop with the flag \<open>failed\<close>.\<close>

datatype verdict = OK | FAIL | SKIP

datatype out_line = NotADirectory | Report string verdict string

fun is_fail :: "out_line \<Rightarrow> bool" where
  "is_fail (Report name v msg) = (v = FAIL)"
| "is_fail NotADirectory = False"

definition report_step :: "(string \<Rightarrow> zip_file) \<Rightarrow> string \<Rightarrow> out_line list \<times> bool \<Rightarrow> string
    \<Rightarrow> out_line list \<times> bool" where
  "report_step src password acc name =
     (case acc of (printed, failed) \<Rightarrow>
        (case check_zip name (src name) password of (ok, msg) \<Rightarrow>
           if ok then (printed @ [Report name OK msg], failed)
           else if name \<in> set OPTIONAL_ZIPS \<and> src name = None
                then (printed @ [Report name SKIP ''(not present)''], failed)
           else (printed @ [Report name FAIL msg], True)))"

text \<open>The line one round of the loop prints for \<open>name\<close>.\<close>

definition report_line :: "(string \<Rightarrow> zip_file) \<Rightarrow> string \<Rightarrow> string \<Rightarrow> out_line" where
  "report_line src password name =
     hd (fst (report_step src password ([], False) name))"

text \<open>\<open>main\<close>: the lines printed and the exit code; \<open>src_is_dir\<close> is \<open>src.is_dir()\<close>.\<close>

definition check_main :: "bool \<Rightarrow> (string \<Rightarrow> zip_file) \<Rightarrow> string \<Rightarrow> out_line list \<times> nat" where
  "check_main src_is_dir src password =
     (if \<not> src_is_dir then ([NotADirectory], 2)
      else (case foldl (report_step src password) ([], False) (ZIP_NAMES @ OPTIONAL_ZIPS) of
              (printed, failed) \<Rightarrow> (printed, if failed then 3 else 0)))"

text \<open>Sample inputs: an archive whose one encrypted entry cannot be read with the
  password given, in a directory that holds only \<open>train.zip\<close>.\<close>

definition locked_read :: "string \<Rightarrow> string \<Rightarrow> exn + string" where
  "locked_read target password = Inl (RuntimeError ''Bad password for file'')"

definition locked_archive :: archive where
  "locked_archive =
     \<lparr>infolist = [\<lparr>filename = ''train/annos/'', is_dir = True, flag_bits = 0\<rparr>,
                  \<lparr>filename = ''train/annos/000001.json'', is_dir = False, flag_bits = 1\<rparr>],
      read = locked_read\<rparr>"

definition sample_src :: "string \<Rightarrow> zip_file" where
  "sample_src name = (if name = ''train.zip'' then Some (Inr locked_archive) else None)"

text \<open>A directory whose \<open>validation.zip\<close> is no archive: the library cannot open it.\<close>

definition damaged_src :: "string \<Rightarrow> zip_file" where
  "damaged_src name =
     (if name = ''validation.zip''
      then Some (Inl (OtherException ''BadZipFile'' ''File is not a zip file''))
      else None)"

definition no_files :: "string \<Rightarrow> zip_file" where
  "no_files name = None"

section \<open>Manifest Assembly (ingest\_deep\_fashion.py)\<close>

record ImageRecord =
  ir_outfit_uid :: string
  ir_image_id :: string
  ir_split :: string
  ir_image_relpath :: string

text \<open>
  The \<open>images/\<close> folder: for each split name the listing of its directory, in whatever
  order the file system enumerates it, or \<open>None\<close> when the directory does not exist.
\<close>

type_synonym images_dir = "string \<Rightarrow> string list option"

text \<open>\<open>sorted(split_dir.glob("*.jpg"))\<close>.\<close>

definition glob_jpg :: "string list \<Rightarrow> string list" where
  "glob_jpg names = sort (filter (\<lambda>n. endswith n ''.jpg'') names)"

definition split_images :: "images_dir \<Rightarrow> string \<Rightarrow> ImageRecord list" where
  "split_images imgdir split =
     (case imgdir split of
        None \<Rightarrow> []
      | Some names \<Rightarrow>
          map (\<lambda>p. \<lparr>ir_outfit_uid = split @ '':'' @ path_stem p,
                      ir_image_id = path_stem p,
                      ir_split = split,
                      ir_image_relpath = ''images/'' @ split @ ''/'' @ p\<rparr>)
            (glob_jpg names))"

text \<open>\<open>_iter_images\<close>: the three splits in the order of the source.\<close>

definition iter_images :: "images_dir \<Rightarrow> ImageRecord list" where
  "iter_images imgdir = concat (map (split_images imgdir) [''train'', ''val'', ''test''])"

text \<open>A parsed row of \<open>purchase_history.csv\<close> is a \<open>dict[str, str]\<close>; \<open>row_get r k\<close> is
  \<open>r.get(k, "")\<close>.\<close>

type_synonym row = "string \<Rightarrow> string option"

definition row_get :: "row \<Rightarrow> string \<Rightarrow> string" where
  "row_get r k = (case r k of Some v \<Rightarrow> v | None \<Rightarrow> [])"

text \<open>Grouping the rows by \<open>image_id\<close> into the \<open>defaultdict(list)\<close> \<open>by_image\<close>.\<close>

definition group_step :: "(string \<Rightarrow> row list option) \<Rightarrow> row \<Rightarrow> (string \<Rightarrow> row list option)" where
  "group_step by_image r =
     (let image_id = row_get r ''image_id''
      in if image_id = [] then by_image
         else by_image(image_id \<mapsto> (case by_image image_id of None \<Rightarrow> [] | Some rs \<Rightarrow> rs) @ [r]))"

definition group_rows :: "row list \<Rightarrow> (string \<Rightarrow> row list option)" where
  "group_rows rows = foldl group_step Map.empty rows"

record manifest_record =
  m_source :: string
  m_outfit_uid :: string
  m_image_id :: string
  m_split :: string
  m_image_relpath :: string
  m_dataset_root :: string
  m_user_ids :: "string list"
  m_items :: "(string \<times> string) list"
  m_seasons :: "string list"
  m_occasions :: "string list"
  m_ratings :: "string list"

text \<open>The lists collected from the metadata rows of one image, in the order of the rows.\<close>

definition add_user :: "string list \<Rightarrow> row \<Rightarrow> string list" where
  "add_user user_ids m =
     (let uid = row_get m ''user_id''
      in if uid \<noteq> [] \<and> uid \<notin> set user_ids then user_ids @ [uid] else user_ids)"

definition add_item :: "(string \<times> string) list \<Rightarrow> row \<Rightarrow> (string \<times> string) list" where
  "add_item its m =
     (let cat = row_get m ''category''; sty = row_get m ''style''
      in if cat \<noteq> [] \<or> sty \<noteq> [] then its @ [(cat, sty)] else its)"

definition add_field :: "string \<Rightarrow> string list \<Rightarrow> row \<Rightarrow> string list" where
  "add_field k vals m =
     (case m k of
        None \<Rightarrow> vals
      | Some v \<Rightarrow> if v \<noteq> [] then vals @ [v] else vals)"

definition build_record :: "string \<Rightarrow> (string \<Rightarrow> row list option) \<Rightarrow> ImageRecord
    \<Rightarrow> manifest_record" where
  "build_record dataset_root by_image img =
     (let meta_rows = (case by_image (ir_image_id img) of None \<Rightarrow> [] | Some rs \<Rightarrow> rs)
      in \<lparr>m_source = ''deep_fashion'',
          m_outfit_uid = ir_outfit_uid img,
          m_image_id = ir_image_id img,
          m_split = ir_split img,
          m_image_relpath = ir_image_relpath img,
          m_dataset_root = dataset_root,
          m_user_ids = foldl add_user [] meta_rows,
          m_items = foldl add_item [] meta_rows,
          m_seasons = foldl (add_field ''season'') [] meta_rows,
          m_occasions = foldl (add_field ''occasion'') [] meta_rows,
          m_ratings = foldl (add_field ''rating'') [] meta_rows\<rparr>)"

text \<open>
  \<open>main\<close>, as far as the manifest goes: no image ends the run; otherwise one record per
  image, written in the order \<open>sorted(images, key=lambda r: (r.split, r.image_id))\<close>.
  The counters of the statistics file do not reach the manifest and are left out.
\<close>

definition assemble_manifest :: "string \<Rightarrow> images_dir \<Rightarrow> row list
    \<Rightarrow> error + manifest_record list" where
  "assemble_manifest dataset_root imgdir rows =
     (let imgs = iter_images imgdir
      in if imgs = [] then Inl (SystemExit (''No images found under: '' @ dataset_root @ ''/images''))
         else Inr (map (build_record dataset_root (group_rows rows))
                     (sort_key (\<lambda>r. (ir_split r, ir_image_id r)) imgs)))"

text \<open>Two enumerations of the same sample folder, and one metadata row.\<close>

definition listing_a :: images_dir where
  "listing_a split =
     (if split = ''train'' then Some [''000152.jpg'', ''000007.jpg'', ''notes.txt'']
      else if split = ''val'' then Some [''000152.jpg'']
      else None)"

definition listing_b :: images_dir where
  "listing_b split =
     (if split = ''train'' then Some [''notes.txt'', ''000007.jpg'', ''000152.jpg'']
      else if split = ''val'' then Some [''000152.jpg'']
      else None)"

definition sample_row :: row where
  "sample_row = [''user_id'' \<mapsto> ''u1'', ''image_id'' \<mapsto> ''000152'', ''rating'' \<mapsto> ''5'']"

definition sample_manifest :: "manifest_record list" where
  "sample_manifest =
     [\<lparr>m_source = ''deep_fashion'', m_outfit_uid = ''train:000007'', m_image_id = ''000007'',
       m_split = ''train'', m_image_relpath = ''images/train/000007.jpg'',
       m_dataset_root = ''/data'', m_user_ids = [], m_items = [], m_seasons = [],
       m_occasions = [], m_ratings = []\<rparr>,
      \<lparr>m_source = ''deep_fashion'', m_outfit_uid = ''train:000152'', m_image_id = ''000152'',
       m_split = ''train'', m_image_relpath = ''images/train/000152.jpg'',
       m_dataset_root = ''/data'', m_user_ids = [''u1''], m_items = [], m_seasons = [],
       m_occasions = [], m_ratings = [''5'']\<rparr>,
      \<lparr>m_source = ''deep_fashion'', m_outfit_uid = ''val:000152'', m_image_id = ''000152'',
       m_split = ''val'', m_image_relpath = ''images/val/000152.jpg'',
       m_dataset_root = ''/data'', m_user_ids = [''u1''], m_items = [], m_seasons = [],
       m_occasions = [], m_ratings = [''5'']\<rparr>]"

section \<open>Image index (index\_polyvore\_images.py)\<close>

record index_entry =
  ie_item_uid :: string
  ie_set_id :: string
  ie_index :: string
  ie_image_relpath :: string
  ie_exists :: bool

text \<open>
  The base folder holds plain files and one directory per set; a set directory is the
  list of the names in it, in the order the file system enumerates them.
\<close>

datatype base_entry = RegularFile | SetDir "string list"

text \<open>\<open>sorted(p for p in base.iterdir() if p.is_dir())\<close>.\<close>

fun set_dirs_of :: "(string \<times> base_entry) list \<Rightarrow> (string \<times> string list) list" where
  "set_dirs_of [] = []"
| "set_dirs_of ((name, SetDir names) # rest) = (name, names) # set_dirs_of rest"
| "set_dirs_of ((name, RegularFile) # rest) = set_dirs_of rest"

definition set_dirs :: "(string \<times> base_entry) list \<Rightarrow> (string \<times> string list) list" where
  "set_dirs base = sort_key fst (set_dirs_of base)"

text \<open>The entry written for the file \<open>jpg\<close> of the set \<open>set_id\<close>; \<open>relbase\<close> is the path of the
  base folder relative to the images root, with its closing slash.\<close>

definition index_entry_of :: "string \<Rightarrow> string \<Rightarrow> string \<Rightarrow> index_entry" where
  "index_entry_of relbase set_id jpg =
     \<lparr>ie_item_uid = item_uid set_id (path_stem jpg),
      ie_set_id = set_id,
      ie_index = path_stem jpg,
      ie_image_relpath = relbase @ set_id @ ''/'' @ jpg,
      ie_exists = True\<rparr>"

definition build_index :: "string \<Rightarrow> (string \<times> base_entry) list \<Rightarrow> index_entry list" where
  "build_index relbase base =
     concat (map (\<lambda>(set_id, names). map (index_entry_of relbase set_id) (glob_jpg names))
                 (set_dirs base))"

text \<open>
  The images root: its name, the listing of \<open>root/images\<close> when that folder exists, and
  the listing of the root itself. \<open>index_main\<close> takes \<open>None\<close> for a root that does not exist.
\<close>

record images_root =
  root_name :: string
  images_folder :: "(string \<times> base_entry) list option"
  root_listing :: "(string \<times> base_entry) list"

definition index_main :: "images_root option \<Rightarrow> error + index_entry list" where
  "index_main root_opt =
     (case root_opt of
        None \<Rightarrow> Inl (SystemExit ''Not found'')
      | Some r \<Rightarrow>
          (case images_folder r of
             Some base \<Rightarrow> Inr (build_index ''images/'' base)
           | None \<Rightarrow>
               if root_name r = ''images'' then Inr (build_index [] (root_listing r))
               else Inl (SystemExit ''Missing expected folder'')))"

section \<open>Join of outfits and image index (augment\_polyvore\_outfits\_with\_images.py)\<close>

text \<open>
  \<open>_load_item_map\<close> over the entries of the index file: an entry with an empty identifier
  or an empty path is passed over, a later entry replaces an earlier one.
\<close>

definition load_step :: "(string \<Rightarrow> string option) \<Rightarrow> index_entry \<Rightarrow> (string \<Rightarrow> string option)" where
  "load_step out e =
     (if ie_item_uid e \<noteq> [] \<and> ie_image_relpath e \<noteq> []
      then out(ie_item_uid e \<mapsto> ie_image_relpath e) else out)"

definition load_item_map :: "index_entry list \<Rightarrow> (string \<Rightarrow> string option)" where
  "load_item_map entries = foldl load_step Map.empty entries"

text \<open>
  The outfits are the records the ingestion wrote. An item reference gains the two local
  path fields when its identifier is in the map (\<open>None\<close>: the field is not added).
  \<open>abspath\<close> stands for \<open>str((images_root / rel).resolve())\<close>, a file system operation.
\<close>

record joined_ref = item_ref +
  local_image_relpath :: "string option"
  local_image_abspath :: "string option"

definition extend_ref :: "item_ref \<Rightarrow> string option \<Rightarrow> string option \<Rightarrow> joined_ref" where
  "extend_ref it rel ab =
     \<lparr>ref_item_uid = ref_item_uid it, ref_set_id = ref_set_id it, ref_index = ref_index it,
      ref_categoryid = ref_categoryid it, ref_name = ref_name it, ref_price = ref_price it,
      ref_likes = ref_likes it, ref_image_url = ref_image_url it,
      local_image_relpath = rel, local_image_abspath = ab\<rparr>"

record join_counts =
  total_outfits :: nat
  total_items :: nat
  resolved :: nat

text \<open>One round of \<open>for it in items\<close>: the items written so far and the counters.\<close>

definition join_item :: "(string \<Rightarrow> string option) \<Rightarrow> (string \<Rightarrow> string)
    \<Rightarrow> joined_ref list \<times> join_counts \<Rightarrow> item_ref \<Rightarrow> joined_ref list \<times> join_counts" where
  "join_item mapping abspath acc it =
     (case acc of (done, c) \<Rightarrow>
        (let c1 = c\<lparr>total_items := total_items c + 1\<rparr>
         in case mapping (ref_item_uid it) of
              None \<Rightarrow> (done @ [extend_ref it None None], c1)
            | Some rel \<Rightarrow>
                if rel \<noteq> []
                then (done @ [extend_ref it (Some rel) (Some (abspath rel))],
                      c1\<lparr>resolved := resolved c1 + 1\<rparr>)
                else (done @ [extend_ref it None None], c1)))"

text \<open>One round of the loop over the outfit lines: the line written and the counters.\<close>

definition join_outfit :: "(string \<Rightarrow> string option) \<Rightarrow> (string \<Rightarrow> string)
    \<Rightarrow> (outfit_record \<times> joined_ref list) list \<times> join_counts \<Rightarrow> outfit_record
    \<Rightarrow> (outfit_record \<times> joined_ref list) list \<times> join_counts" where
  "join_outfit mapping abspath acc outfit =
     (case acc of (written, c) \<Rightarrow>
        (case foldl (join_item mapping abspath) ([], c) (o_items outfit) of
           (its, c1) \<Rightarrow>
             (written @ [(outfit, its)], c1\<lparr>total_outfits := total_outfits c1 + 1\<rparr>)))"

text \<open>The percentage printed at the end.\<close>

definition pct :: "join_counts \<Rightarrow> rat" where
  "pct c = (if total_items c \<noteq> 0
            then of_nat (resolved c) / of_nat (total_items c) * 100 else 0)"

text \<open>\<open>main\<close>: the lines written, the counters and the percentage; \<open>root_exists\<close> is
  \<open>images_root.exists()\<close>.\<close>

definition augment_main :: "bool \<Rightarrow> index_entry list \<Rightarrow> (string \<Rightarrow> string) \<Rightarrow> outfit_record list
    \<Rightarrow> error + (outfit_record \<times> joined_ref list) list \<times> join_counts \<times> rat" where
  "augment_main root_exists entries abspath outfits =
     (if \<not> root_exists then Inl (SystemExit ''Not found'')
      else (case foldl (join_outfit (load_item_map entries) abspath)
                   ([], \<lparr>total_outfits = 0, total_items = 0, resolved = 0\<rparr>) outfits of
              (written, c) \<Rightarrow> Inr (written, c, pct c)))"

text \<open>Sample inputs: a base folder with one set whose item 0 is a \<open>.jpg\<close> and whose item 1
  is a \<open>.png\<close>, and two outfits that refer to item 0.\<close>

definition sample_base :: "(string \<times> base_entry) list" where
  "sample_base = [(''readme.txt'', RegularFile), (''123'', SetDir [''1.png'', ''0.jpg''])]"

definition sample_abspath :: "string \<Rightarrow> string" where
  "sample_abspath rel = ''/data/polyvore_images/'' @ rel"

definition ref_to :: "string \<Rightarrow> string \<Rightarrow> item_ref" where
  "ref_to set_id idx =
     \<lparr>ref_item_uid = item_uid set_id idx, ref_set_id = set_id, ref_index = JStr idx,
      ref_categoryid = JNull, ref_name = JNull, ref_price = JNull, ref_likes = JNull,
      ref_image_url = JNull\<rparr>"

definition outfit_with :: "string \<Rightarrow> item_ref list \<Rightarrow> outfit_record" where
  "outfit_with set_id refs =
     \<lparr>o_source = ''polyvore'', o_split = ''train'', o_outfit_uid = ''polyvore:'' @ set_id,
      o_set_id = set_id, o_set_url = JNull, o_date = JNull, o_desc = JNull, o_items = refs\<rparr>"

definition sample_outfits :: "outfit_record list" where
  "sample_outfits =
     [outfit_with ''123'' [ref_to ''123'' ''0''], outfit_with ''777'' [ref_to ''123'' ''0'']]"

definition sample_joined :: joined_ref where
  "sample_joined =
     extend_ref (ref_to ''123'' ''0'') (Some ''images/123/0.jpg'')
       (Some ''/data/polyvore_images/images/123/0.jpg'')"

section \<open>Tabular Repair (ingest\_deep\_fashion.py)\<close>

text \<open>
  The text of the CSV file is a Python \<open>str\<close> on which line boundaries are searched, and
  \<open>str.splitlines\<close> knows boundaries beyond ASCII: the text is modelled as the list of its
  code points. \<open>ascii\<close> embeds an ASCII literal.
\<close>

type_synonym ustr = "nat list"

definition ascii :: "string \<Rightarrow> ustr" where
  "ascii s = map of_char s"

text \<open>\<open>sub in s\<close>: \<open>sub\<close> occurs in \<open>s\<close> as a contiguous run.\<close>

fun py_in :: "ustr \<Rightarrow> ustr \<Rightarrow> bool" where
  "py_in sub [] = (sub = [])"
| "py_in sub (c # cs) = (prefix sub (c # cs) \<or> py_in sub cs)"

text \<open>
  \<open>s.replace(old, new)\<close>: the occurrences of \<open>old\<close> are replaced from left to right,
  without overlap; for an empty \<open>old\<close>, \<open>new\<close> is put before every character and at the end.
\<close>

fun replace_from :: "ustr \<Rightarrow> ustr \<Rightarrow> ustr \<Rightarrow> ustr" where
  "replace_from old new [] = []"
| "replace_from old new (c # cs) =
     (if prefix old (c # cs) then new @ replace_from old new (drop (length old - 1) cs)
      else c # replace_from old new cs)"

definition replace :: "ustr \<Rightarrow> ustr \<Rightarrow> ustr \<Rightarrow> ustr" where
  "replace old new s =
     (if old = [] then new @ concat (map (\<lambda>c. c # new) s) else replace_from old new s)"

text \<open>
  \<open>s.splitlines(keepends=True)\<close>. The line boundaries of \<open>str\<close> are LF, CR, CR LF, VT, FF,
  FS, GS, RS, NEL, LINE SEPARATOR and PARAGRAPH SEPARATOR.
\<close>

definition is_linebreak :: "nat \<Rightarrow> bool" where
  "is_linebreak c = (c \<in> {10, 13, 11, 12, 28, 29, 30, 133, 8232, 8233})"

fun take_line :: "ustr \<Rightarrow> ustr \<times> ustr" where
  "take_line [] = ([], [])"
| "take_line (c # cs) =
     (if c = 13 then (case cs of
                        [] \<Rightarrow> ([13], [])
                      | d # ds \<Rightarrow> if d = 10 then ([13, 10], ds) else ([13], d # ds))
      else if is_linebreak c then ([c], cs)
      else (case take_line cs of (line, rest) \<Rightarrow> (c # line, rest)))"

function splitlines :: "ustr \<Rightarrow> ustr list" where
  "splitlines s =
     (if s = [] then []
      else (case take_line s of (line, rest) \<Rightarrow> line # splitlines rest))"
  by pat_completeness auto
termination
proof (relation "measure length")
  show "wf (measure length)"
    by simp
next
  fix s line rest :: ustr
  assume s: "s \<noteq> []" and lr: "(line, rest) = take_line s"
  have shorter: "length (snd (take_line t)) \<le> length t" for t
  proof (induction t)
    case Nil
    show ?case by simp
  next
    case (Cons c cs)
    obtain l r where "take_line cs = (l, r)"
      by (cases "take_line cs")
    with Cons show ?case
      by (cases cs) simp_all
  qed
  obtain c cs where c: "s = c # cs"
    using s by (cases s) auto
  obtain l r where t: "take_line cs = (l, r)"
    by (cases "take_line cs")
  have "length (snd (take_line (c # cs))) < length (c # cs)"
    using shorter [of cs] t by (cases cs) simp_all
  then have "length rest < length s"
    using lr c by (metis snd_conv)
  then show "(rest, s) \<in> measure length"
    by simp
qed

declare splitlines.simps [simp del]

text \<open>The marker fragments and the split fragment.\<close>

definition USER_ID :: ustr where "USER_ID = ascii ''user_id''"
definition IMAGE_ID :: ustr where "IMAGE_ID = ascii ''image_id''"
definition RATING :: ustr where "RATING = ascii ''rating''"
definition OCCASION :: ustr where "OCCASION = ascii ''occasion''"
definition RATI :: ustr where "RATI = ascii ''rati''"
definition RATI_NG :: ustr where "RATI_NG = ascii ''rati'' @ [10] @ ascii ''ng''"

text \<open>
  The \<open>while\<close> loop over at most five lines: \<open>header_lines\<close> holds the lines taken so far.
  The result is the repaired text, or \<open>None\<close> when the loop ends without a candidate.
\<close>

fun scan_header :: "ustr list \<Rightarrow> ustr list \<Rightarrow> ustr option" where
  "scan_header header_lines [] = None"
| "scan_header header_lines (line # lines) =
     (if length header_lines < 5
      then (let candidate = concat (header_lines @ [line])
            in if py_in USER_ID candidate \<and> py_in IMAGE_ID candidate \<and>
                  py_in RATING candidate \<and> py_in OCCASION candidate
               then Some (replace [10] [] (replace [13] [] candidate) @ [10] @ concat lines)
               else scan_header (header_lines @ [line]) lines)
      else None)"

text \<open>\<open>text[:text.find("\n")]\<close> for a text with a newline: the text before the first
  newline.\<close>

definition first_line :: "ustr \<Rightarrow> ustr" where
  "first_line text = takeWhile (\<lambda>c. c \<noteq> 10) text"

text \<open>The fast path: the text has a newline and its first line holds \<open>rating\<close> and
  \<open>occasion\<close>.\<close>

definition header_fine :: "ustr \<Rightarrow> bool" where
  "header_fine text =
     (10 \<in> set text \<and>
      (let header = first_line text
       in py_in RATING header \<and> py_in OCCASION header))"

text \<open>\<open>_repair_purchase_history_csv\<close> on the decoded text, and with the decoding of the raw
  bytes (\<open>raw.decode("utf-8", errors="replace")\<close>, a library function) as a parameter.\<close>

definition repair_text :: "ustr \<Rightarrow> ustr" where
  "repair_text text =
     (if header_fine text then text
      else (let text1 = replace RATI_NG RATING text;
                lines = splitlines text1
            in if lines = [] then []
               else (case scan_header [] lines of
                       Some repaired \<Rightarrow> repaired
                     | None \<Rightarrow> text1)))"

definition repair_purchase_history_csv :: "(string \<Rightarrow> ustr) \<Rightarrow> string \<Rightarrow> ustr" where
  "repair_purchase_history_csv decode raw = repair_text (decode raw)"

text \<open>A sample file: the header around \<open>rating\<close>, and the rows after the header.\<close>

definition head_a :: ustr where "head_a = ascii ''user_id,image_id,''"
definition head_b :: ustr where "head_b = ascii '',occasion''"
definition body_rows :: ustr where "body_rows = [10] @ ascii ''1,2,5,party'' @ [10]"

section \<open>Verified properties\<close>

subsection \<open>Detection Schema Converter\<close>

text \<open>The float operations at the values of the sample documents, and at two integers
  that a double cannot hold.\<close>

lemmas float_defs =
  float_of_int_def round_double_def pack_def round_to_def round_half_even_def ilog2_def
  neg_log2_def flog2_def pow2_def compute_floorlog fsub_def fmul_def fgt_def fle_def
  max_zero_def

lemma float_of_int_samples:
  "float_of_int 10 = Inr (Finite 10)"
  "float_of_int 50 = Inr (Finite 50)"
  "float_of_int 60 = Inr (Finite 60)"
  by (simp_all add: float_defs)

lemma fsub_samples:
  "fsub (Finite 50) (Finite 10) = Finite 40"
  "fsub (Finite 60) (Finite 10) = Finite 50"
  "fsub (Finite (21 / 2)) (Finite 10) = Finite (1 / 2)"
  by (simp_all add: float_defs)

lemma fmul_sample: "fmul (Finite 40) (Finite 50) = Finite 2000"
  by (simp add: float_defs)

lemma max_zero_samples:
  "max_zero (Finite 40) = Finite 40"
  "max_zero (Finite 50) = Finite 50"
  "max_zero (Finite (1 / 2)) = Finite (1 / 2)"
  by (simp_all add: max_zero_def fgt_def)

lemma fle_samples:
  "\<not> fle (Finite 40) (Finite 1)"
  "\<not> fle (Finite 50) (Finite 1)"
  "fle (Finite (1 / 2)) (Finite 1)"
  by (simp_all add: fle_def)

lemma floor_half_odd: "\<lfloor>9007199254740993 / (2::rat)\<rfloor> = 4503599627370496"
  by (simp add: floor_eq_iff)

lemma float_of_int_rounds: "float_of_int (2 ^ 53 + 1) = Inr (Finite (2 ^ 53))"
  by (simp add: float_defs floor_half_odd)

lemma flog2_two_power: "flog2 (2 ^ 1024) = 1024"
proof -
  have f: "\<lfloor>(2::rat) ^ 1024\<rfloor> = 2 ^ 1024"
    by (metis floor_of_int of_int_numeral of_int_power)
  have n: "nat ((2::int) ^ 1024) = 2 ^ 1024"
    by (simp only: nat_power_eq nat_numeral zero_le_numeral)
  have "floorlog 2 (1 * (2::nat) ^ 1024) = floorlog 2 1 + 1024"
    by (rule floorlog_power) simp_all
  moreover have "floorlog 2 (1::nat) = 1"
    by (simp add: compute_floorlog)
  ultimately have l: "floorlog 2 ((2::nat) ^ 1024) = 1025"
    by (simp del: power_numeral)
  show ?thesis
    unfolding flog2_def f n l by simp
qed

lemma float_of_int_overflows: "float_of_int (2 ^ 1024) = Inl OverflowError"
  using flog2_two_power
  by (simp add: float_of_int_def round_double_def pack_def round_to_def round_half_even_def
      ilog2_def pow2_def)

lemmas conv_eval_defs =
  convert_def iter_annos_def endswith_def find_image_def path_stem_def rfind_dot_def
  image_size_def dict_get_def process_doc_def process_item_def annotate_def box_size_def
  register_name_def startswith_def item_bbox_def item_cat_id_def setdefault_def
  init_state_def emit_categories_def scenario_split_def scenario_doc_def
  degenerate_doc_def no_decoder_def float_of_int_samples fsub_samples fmul_sample
  max_zero_samples fle_samples

text \<open>
  Claim C8. Converting the scenario document, whose paired image file exists, yields
  exactly one image with width 200 and height 300 and exactly one annotation with category
  3, box (10, 10, 40, 50) in (x, y, width, height) form and area 2000. The sizes come from
  the declared fields: the result is the same for every image decoder \<open>pil\<close>, also one
  that fails on every file, and for every \<open>limit\<close>.
\<close>

theorem scenario_conversion:
  "convert \<lparr>annos = [(''000001.json'', Some scenario_doc)],
            image_files = [''000001.jpg''], pil_size = pil\<rparr> limit
   = Inr \<lparr>images = [\<lparr>img_id = 0, file_name = ''000001.jpg'', width = 200, height = 300\<rparr>],
          annotations = [\<lparr>ann_ident = 0, image_ident = 0, category_id = 3,
                          bbox = (Finite 10, Finite 10, Finite 40, Finite 50),
                          area = Finite 2000, iscrowd = 0, segmentation = []\<rparr>],
          categories = [\<lparr>cat_ident = 3, cat_name = ''top'',
                         supercategory = ''clothing''\<rparr>]\<rparr>"
  by (simp add: conv_eval_defs)


lemma max_zero_not_nan: "max_zero d \<noteq> NaN"
  by (simp add: max_zero_def fgt_def)

lemma not_fle_fgt: "a \<noteq> NaN \<Longrightarrow> \<not> fle a (Finite 1) \<Longrightarrow> fgt a (Finite 1)"
  by (simp add: fle_def fgt_def not_le)

lemma box_size_not_nan:
  "box_size box = Inr (w, h) \<Longrightarrow> w \<noteq> NaN \<and> h \<noteq> NaN"
  by (auto simp: box_size_def max_zero_not_nan split: prod.splits sum.splits)

lemma annotate_cases:
  assumes "annotate st cat box = Inr st'"
  shows "st' = st \<or>
         (\<exists>a. valid_box a \<and>
              st' = st\<lparr>st_annotations := st_annotations st @ [a], ann_id := ann_id st + 1\<rparr>)"
proof (cases "box_size box")
  case (Inl e)
  with assms show ?thesis by (simp add: annotate_def)
next
  case (Inr wh)
  obtain w h where wh: "wh = (w, h)" by (cases wh)
  note nn = box_size_not_nan [OF Inr [unfolded wh]]
  show ?thesis
  proof (cases "fle w (Finite 1) \<or> fle h (Finite 1)")
    case True
    with assms Inr wh show ?thesis by (simp add: annotate_def)
  next
    case False
    with nn have "fgt w (Finite 1)" "fgt h (Finite 1)"
      by (simp_all add: not_fle_fgt)
    then have v: "\<And>fx1 fy1. valid_box \<lparr>ann_ident = ann_id st, image_ident = image_id st,
        category_id = cat, bbox = (fx1, fy1, w, h), area = fmul w h, iscrowd = 0,
        segmentation = []\<rparr>"
      by (simp add: valid_box_def)
    from assms Inr wh False obtain fx1 fy1 where
      "st' = st\<lparr>st_annotations := st_annotations st @
                [\<lparr>ann_ident = ann_id st, image_ident = image_id st, category_id = cat,
                  bbox = (fx1, fy1, w, h), area = fmul w h, iscrowd = 0,
                  segmentation = []\<rparr>],
              ann_id := ann_id st + 1\<rparr>"
      by (auto simp: annotate_def split: sum.splits)
    with v [of fx1 fy1] show ?thesis
      by blast
  qed
qed

lemma annotate_frame:
  assumes "annotate st cat box = Inr st'"
  shows "st_images st' = st_images st" "image_id st' = image_id st"
    "cat_id_to_name st' = cat_id_to_name st"
  using annotate_cases [OF assms] by auto

lemma annotate_valid:
  assumes "annotate st cat box = Inr st'" "list_all valid_box (st_annotations st)"
  shows "list_all valid_box (st_annotations st')"
  using annotate_cases [OF assms(1)] assms(2) by auto

lemma register_name_frame:
  "st_images (register_name st cat d) = st_images st"
  "image_id (register_name st cat d) = image_id st"
  "st_annotations (register_name st cat d) = st_annotations st"
  by (simp_all add: register_name_def split: option.splits json.splits)

lemma register_name_registry:
  "cat_id_to_name (register_name st cat d) = cat_id_to_name st \<or>
   (\<exists>n. cat_id_to_name (register_name st cat d) = setdefault cat n (cat_id_to_name st))"
  by (auto simp: register_name_def split: option.splits json.splits)

lemma process_item_cases:
  assumes "process_item st kv = Inr st'"
  shows "st' = st \<or>
         (\<exists>cat d box. annotate (register_name st cat d) cat box = Inr st')"
  using assms
  by (cases kv) (auto simp: process_item_def split: if_splits json.splits option.splits)

lemma process_item_frame:
  assumes "process_item st kv = Inr st'"
  shows "st_images st' = st_images st" "image_id st' = image_id st"
  using process_item_cases [OF assms] by (auto simp: annotate_frame register_name_frame)

lemma process_item_valid:
  assumes "process_item st kv = Inr st'" "list_all valid_box (st_annotations st)"
  shows "list_all valid_box (st_annotations st')"
  using process_item_cases [OF assms(1)] assms(2)
  by (auto intro: annotate_valid simp: register_name_frame)

lemma process_item_registry:
  assumes "process_item st kv = Inr st'"
  shows "cat_id_to_name st' = cat_id_to_name st \<or>
         (\<exists>c n. cat_id_to_name st' = setdefault c n (cat_id_to_name st))"
proof -
  from process_item_cases [OF assms]
  consider "st' = st" | cat d box where "annotate (register_name st cat d) cat box = Inr st'"
    by blast
  then show ?thesis
  proof cases
    case 1
    then show ?thesis by simp
  next
    case 2
    from annotate_frame(3) [OF 2] register_name_registry [of st cat d]
    show ?thesis by auto
  qed
qed

lemma process_items_frame:
  "process_items st d = Inr st' \<Longrightarrow>
   st_images st' = st_images st \<and> image_id st' = image_id st"
proof (induction d arbitrary: st)
  case Nil
  then show ?case by simp
next
  case (Cons kv d)
  then show ?case
    by (auto split: sum.splits dest: process_item_frame)
qed

lemma process_items_valid:
  "process_items st d = Inr st' \<Longrightarrow> list_all valid_box (st_annotations st) \<Longrightarrow>
   list_all valid_box (st_annotations st')"
proof (induction d arbitrary: st)
  case Nil
  then show ?case by simp
next
  case (Cons kv d)
  from Cons.prems(1) obtain st1 where 1: "process_item st kv = Inr st1"
    and 2: "process_items st1 d = Inr st'"
    by (auto split: sum.splits)
  from Cons.IH [OF 2 process_item_valid [OF 1 Cons.prems(2)]] show ?case .
qed

lemma process_doc_frame:
  assumes "process_doc d n wh st = Inr st'"
  shows "st_images st' = st_images st @
           [\<lparr>img_id = image_id st, file_name = n, width = fst wh, height = snd wh\<rparr>]"
    and "image_id st' = image_id st + 1"
  using assms
  by (auto simp: process_doc_def split: sum.splits dest: process_items_frame)

lemma process_doc_valid:
  assumes "process_doc d n wh st = Inr st'" "list_all valid_box (st_annotations st)"
  shows "list_all valid_box (st_annotations st')"
  using assms
  by (auto simp: process_doc_def split: sum.splits dest: process_items_valid)

lemma conv_loop_valid:
  "conv_loop env limit fs st = Inr st' \<Longrightarrow> list_all valid_box (st_annotations st) \<Longrightarrow>
   list_all valid_box (st_annotations st')"
proof (induction fs arbitrary: st)
  case Nil
  then show ?case by simp
next
  case (Cons f rest)
  obtain name parsed where f: "f = (name, parsed)" by (cases f)
  show ?case using Cons.prems unfolding f
    by (auto split: option.splits json.splits sum.splits if_splits
        intro: Cons.IH process_doc_valid)
qed

lemma convert_valid:
  "convert env limit = Inr out \<Longrightarrow> list_all valid_box (annotations out)"
  using conv_loop_valid [of env limit "iter_annos (annos env)" init_state]
  by (auto simp: convert_def init_state_def split: sum.splits)

lemma take_limit_step:
  assumes "limit \<noteq> 0" "\<not> limit \<le> int n + 1"
  shows "take (nat (max 1 (limit - int n))) (x # xs)
         = x # take (nat (max 1 (limit - int (n + 1)))) xs"
proof -
  from assms have "nat (max 1 (limit - int n)) = Suc (nat (max 1 (limit - int (n + 1))))"
    by (simp add: max_def)
  then show ?thesis by (simp only: take_Suc_Cons)
qed

lemma take_limit_stop:
  assumes "limit \<le> int n + 1"
  shows "take (nat (max 1 (limit - int n))) (x # xs) = [x]"
proof -
  from assms have "max 1 (limit - int n) = 1"
    by arith
  then show ?thesis by simp
qed

lemma conv_loop_images:
  "conv_loop env limit fs st = Inr st' \<Longrightarrow>
   map file_name (st_images st') = map file_name (st_images st) @
     (if limit = 0
      then List.map_filter (\<lambda>f. find_image (image_files env) (path_stem (fst f))) fs
      else take (nat (max 1 (limit - int (image_id st))))
             (List.map_filter (\<lambda>f. find_image (image_files env) (path_stem (fst f))) fs))"
proof (induction fs arbitrary: st)
  case Nil
  then show ?case by (simp add: map_filter_simps)
next
  case (Cons f rest)
  let ?pf = "List.map_filter (\<lambda>f. find_image (image_files env) (path_stem (fst f)))"
  obtain name parsed where f: "f = (name, parsed)" by (cases f)
  from Cons.prems obtain anno where p: "parsed = Some anno"
    unfolding f by (cases parsed) simp_all
  show ?case
  proof (cases "find_image (image_files env) (path_stem name)")
    case None
    with Cons.prems have "conv_loop env limit rest st = Inr st'"
      unfolding f p by simp
    from Cons.IH [OF this] None show ?thesis
      by (simp add: f map_filter_simps)
  next
    case (Some img)
    with Cons.prems obtain d wh st1 where d: "anno = JObj d"
      and pd: "process_doc d img wh st = Inr st1"
      and r: "(if limit \<noteq> 0 \<and> limit \<le> int (image_id st1) then Inr st1
               else conv_loop env limit rest st1) = Inr st'"
      unfolding f p by (auto split: json.splits option.splits sum.splits)
    note fr = process_doc_frame [OF pd]
    have pf: "?pf (f # rest) = img # ?pf rest"
      using Some by (simp add: f map_filter_simps)
    show ?thesis
    proof (cases "limit \<noteq> 0 \<and> limit \<le> int (image_id st1)")
      case True
      with r have "st' = st1" by simp
      moreover from True fr(2) have "limit \<le> int (image_id st) + 1" by simp
      ultimately show ?thesis
        using True fr(1) unfolding pf by (simp add: take_limit_stop)
    next
      case False
      with r have "conv_loop env limit rest st1 = Inr st'" by simp
      note ih = Cons.IH [OF this]
      show ?thesis
      proof (cases "limit = 0")
        case True
        with ih fr(1) show ?thesis unfolding pf by simp
      next
        case nz: False
        with False fr(2) have "\<not> limit \<le> int (image_id st) + 1" by simp
        from take_limit_step [OF nz this, of img "?pf rest"] ih fr nz
        show ?thesis unfolding pf by simp
      qed
    qed
  qed
qed

lemma convert_images:
  assumes "convert env limit = Inr out"
  shows "map file_name (images out) =
           (if limit = 0 then paired_images env
            else take (nat (max 1 limit)) (paired_images env))"
proof -
  from assms obtain st where l: "conv_loop env limit (iter_annos (annos env)) init_state = Inr st"
    and o: "images out = st_images st"
    by (auto simp: convert_def split: sum.splits)
  from conv_loop_images [OF l] show ?thesis
    by (simp add: o paired_images_def init_state_def)
qed

lemma process_item_degenerate:
  assumes "\<And>d' box c. startswith (fst kv) ''item'' \<Longrightarrow> snd kv = JObj d' \<Longrightarrow>
             item_bbox d' = Some box \<Longrightarrow> item_cat_id d' = Some c \<Longrightarrow>
             \<exists>w h. box_size box = Inr (w, h) \<and> (fle w (Finite 1) \<or> fle h (Finite 1))"
  shows "\<exists>st'. process_item st kv = Inr st' \<and> st_annotations st' = st_annotations st
           \<and> st_images st' = st_images st \<and> image_id st' = image_id st"
proof (cases kv)
  case (Pair k v)
  show ?thesis
  proof (cases "startswith k ''item'' \<and> (\<exists>d' box c. v = JObj d' \<and> item_bbox d' = Some box
                  \<and> item_cat_id d' = Some c)")
    case True
    then obtain d' box c where h: "startswith k ''item''" "v = JObj d'"
      "item_bbox d' = Some box" "item_cat_id d' = Some c"
      by blast
    from assms [of d' box c] h Pair obtain w h where
      "box_size box = Inr (w, h)" "fle w (Finite 1) \<or> fle h (Finite 1)"
      by auto
    then have "annotate (register_name st c d') c box = Inr (register_name st c d')"
      by (simp add: annotate_def)
    with h Pair show ?thesis
      by (simp add: process_item_def register_name_frame)
  next
    case False
    then have "process_item st kv = Inr st"
      unfolding Pair by (auto simp: process_item_def split: json.splits option.splits)
    then show ?thesis by simp
  qed
qed

lemma process_items_degenerate:
  assumes "\<And>kv d' box c. kv \<in> set d \<Longrightarrow> startswith (fst kv) ''item'' \<Longrightarrow>
             snd kv = JObj d' \<Longrightarrow> item_bbox d' = Some box \<Longrightarrow> item_cat_id d' = Some c \<Longrightarrow>
             \<exists>w h. box_size box = Inr (w, h) \<and> (fle w (Finite 1) \<or> fle h (Finite 1))"
  shows "\<exists>st'. process_items st d = Inr st' \<and> st_annotations st' = st_annotations st
           \<and> st_images st' = st_images st \<and> image_id st' = image_id st"
  using assms
proof (induction d arbitrary: st)
  case Nil
  then show ?case by simp
next
  case (Cons kv d)
  have "\<exists>st1. process_item st kv = Inr st1 \<and> st_annotations st1 = st_annotations st
           \<and> st_images st1 = st_images st \<and> image_id st1 = image_id st"
    by (rule process_item_degenerate) (rule Cons.prems [of kv], simp_all)
  then obtain st1 where 1: "process_item st kv = Inr st1"
    "st_annotations st1 = st_annotations st" "st_images st1 = st_images st"
    "image_id st1 = image_id st"
    by blast
  have "\<exists>st'. process_items st1 d = Inr st' \<and> st_annotations st' = st_annotations st1
           \<and> st_images st' = st_images st1 \<and> image_id st' = image_id st1"
  proof (rule Cons.IH)
    fix kv' d' box c
    assume "kv' \<in> set d" "startswith (fst kv') ''item''" "snd kv' = JObj d'"
      "item_bbox d' = Some box" "item_cat_id d' = Some c"
    then show "\<exists>w h. box_size box = Inr (w, h) \<and> (fle w (Finite 1) \<or> fle h (Finite 1))"
      using Cons.prems [of kv' d' box c] by simp
  qed
  with 1 show ?case by auto
qed

lemma process_doc_degenerate:
  assumes "\<forall>kv\<in>set d. \<forall>d' box c.
             startswith (fst kv) ''item'' \<and> snd kv = JObj d' \<and> item_bbox d' = Some box \<and>
             item_cat_id d' = Some c
             \<longrightarrow> (\<exists>w h. box_size box = Inr (w, h) \<and> (fle w (Finite 1) \<or> fle h (Finite 1)))"
  shows "\<exists>st'. process_doc d img wh st = Inr st' \<and>
           st_images st' = st_images st @
             [\<lparr>img_id = image_id st, file_name = img, width = fst wh, height = snd wh\<rparr>] \<and>
           st_annotations st' = st_annotations st \<and> image_id st' = image_id st + 1"
proof -
  let ?st0 = "st\<lparr>st_images := st_images st @
                [\<lparr>img_id = image_id st, file_name = img, width = fst wh, height = snd wh\<rparr>]\<rparr>"
  have "\<exists>st2. process_items ?st0 d = Inr st2 \<and> st_annotations st2 = st_annotations ?st0
           \<and> st_images st2 = st_images ?st0 \<and> image_id st2 = image_id ?st0"
  proof (rule process_items_degenerate)
    fix kv d' box c
    assume "kv \<in> set d" "startswith (fst kv) ''item''" "snd kv = JObj d'"
      "item_bbox d' = Some box" "item_cat_id d' = Some c"
    with assms show "\<exists>w h. box_size box = Inr (w, h) \<and> (fle w (Finite 1) \<or> fle h (Finite 1))"
      by blast
  qed
  then obtain st2 where "process_items ?st0 d = Inr st2" "st_annotations st2 = st_annotations st"
    "st_images st2 = st_images ?st0" "image_id st2 = image_id st"
    by auto
  then show ?thesis
    by (simp add: process_doc_def)
qed

lemma annotate_total:
  assumes "box_size box = Inr wh"
  shows "\<exists>st'. annotate st cat box = Inr st'"
proof -
  obtain x1 y1 x2 y2 where b: "box = (x1, y1, x2, y2)" by (cases box)
  from assms obtain fx1 fy1 where "py_float x1 = Inr fx1" "py_float y1 = Inr fy1"
    unfolding b by (auto simp: box_size_def split: sum.splits)
  with assms show ?thesis
    by (cases wh) (simp add: annotate_def b)
qed

lemma process_item_total:
  assumes "\<And>d' box c. startswith (fst kv) ''item'' \<Longrightarrow> snd kv = JObj d' \<Longrightarrow>
             item_bbox d' = Some box \<Longrightarrow> item_cat_id d' = Some c \<Longrightarrow>
             \<exists>wh. box_size box = Inr wh"
  shows "\<exists>st'. process_item st kv = Inr st'"
proof (cases kv)
  case (Pair k v)
  show ?thesis
  proof (cases "startswith k ''item'' \<and> (\<exists>d' box c. v = JObj d' \<and> item_bbox d' = Some box
                  \<and> item_cat_id d' = Some c)")
    case True
    then obtain d' box c where h: "startswith k ''item''" "v = JObj d'"
      "item_bbox d' = Some box" "item_cat_id d' = Some c"
      by blast
    from assms [of d' box c] h Pair obtain wh where "box_size box = Inr wh"
      by auto
    from annotate_total [OF this, of "register_name st c d'" c] h Pair show ?thesis
      by (simp add: process_item_def)
  next
    case False
    then have "process_item st kv = Inr st"
      unfolding Pair by (auto simp: process_item_def split: json.splits option.splits)
    then show ?thesis by simp
  qed
qed

lemma process_items_total:
  assumes "\<And>kv d' box c. kv \<in> set d \<Longrightarrow> startswith (fst kv) ''item'' \<Longrightarrow>
             snd kv = JObj d' \<Longrightarrow> item_bbox d' = Some box \<Longrightarrow> item_cat_id d' = Some c \<Longrightarrow>
             \<exists>wh. box_size box = Inr wh"
  shows "\<exists>st'. process_items st d = Inr st'"
  using assms
proof (induction d arbitrary: st)
  case Nil
  then show ?case by simp
next
  case (Cons kv d)
  have "\<exists>st1. process_item st kv = Inr st1"
    by (rule process_item_total) (rule Cons.prems [of kv], simp_all)
  then obtain st1 where 1: "process_item st kv = Inr st1"
    by blast
  have "\<exists>st'. process_items st1 d = Inr st'"
  proof (rule Cons.IH)
    fix kv' d' box c
    assume "kv' \<in> set d" "startswith (fst kv') ''item''" "snd kv' = JObj d'"
      "item_bbox d' = Some box" "item_cat_id d' = Some c"
    then show "\<exists>wh. box_size box = Inr wh"
      using Cons.prems [of kv' d' box c] by simp
  qed
  with 1 show ?case by auto
qed

lemma process_doc_total:
  assumes "\<forall>kv\<in>set d. \<forall>d' box c.
             startswith (fst kv) ''item'' \<and> snd kv = JObj d' \<and> item_bbox d' = Some box \<and>
             item_cat_id d' = Some c
             \<longrightarrow> (\<exists>wh. box_size box = Inr wh)"
  shows "\<exists>st'. process_doc d img wh st = Inr st'"
proof -
  let ?st0 = "st\<lparr>st_images := st_images st @
                [\<lparr>img_id = image_id st, file_name = img, width = fst wh, height = snd wh\<rparr>]\<rparr>"
  have "\<exists>st2. process_items ?st0 d = Inr st2"
  proof (rule process_items_total)
    fix kv d' box c
    assume "kv \<in> set d" "startswith (fst kv) ''item''" "snd kv = JObj d'"
      "item_bbox d' = Some box" "item_cat_id d' = Some c"
    with assms show "\<exists>wh. box_size box = Inr wh"
      by blast
  qed
  then show ?thesis
    by (auto simp: process_doc_def)
qed

lemma conv_loop_total:
  assumes "\<forall>f\<in>set fs. \<exists>d. snd f = Some (JObj d) \<and>
             (\<forall>img. find_image (image_files env) (path_stem (fst f)) = Some img
                \<longrightarrow> image_size env d img \<noteq> None) \<and>
             (\<forall>kv\<in>set d. \<forall>d' box c.
                startswith (fst kv) ''item'' \<and> snd kv = JObj d' \<and> item_bbox d' = Some box \<and>
                item_cat_id d' = Some c
                \<longrightarrow> (\<exists>wh. box_size box = Inr wh))"
  shows "\<exists>st'. conv_loop env limit fs st = Inr st'"
  using assms
proof (induction fs arbitrary: st)
  case Nil
  then show ?case by simp
next
  case (Cons f rest)
  obtain name parsed where f: "f = (name, parsed)" by (cases f)
  from Cons.prems have rest: "\<And>st1. \<exists>st'. conv_loop env limit rest st1 = Inr st'"
    by (intro Cons.IH) simp
  from Cons.prems obtain d where p: "parsed = Some (JObj d)"
    and sz: "\<And>img. find_image (image_files env) (path_stem name) = Some img
               \<Longrightarrow> image_size env d img \<noteq> None"
    and it: "\<forall>kv\<in>set d. \<forall>d' box c.
                startswith (fst kv) ''item'' \<and> snd kv = JObj d' \<and> item_bbox d' = Some box \<and>
                item_cat_id d' = Some c
                \<longrightarrow> (\<exists>wh. box_size box = Inr wh)"
    unfolding f by auto
  show ?case
  proof (cases "find_image (image_files env) (path_stem name)")
    case None
    with rest [of st] show ?thesis
      unfolding f p by simp
  next
    case (Some img)
    from sz [OF Some] obtain wh where wh: "image_size env d img = Some wh"
      by auto
    from process_doc_total [OF it, of img wh st] obtain st1 where
      "process_doc d img wh st = Inr st1"
      by blast
    with rest [of st1] Some wh show ?thesis
      unfolding f p by auto
  qed
qed

lemma convert_total:
  assumes "\<forall>f\<in>set (annos env). endswith (fst f) ''.json'' \<longrightarrow>
             (\<exists>d. snd f = Some (JObj d) \<and>
               (\<forall>img. find_image (image_files env) (path_stem (fst f)) = Some img
                  \<longrightarrow> image_size env d img \<noteq> None) \<and>
               (\<forall>kv\<in>set d. \<forall>d' box c.
                  startswith (fst kv) ''item'' \<and> snd kv = JObj d' \<and> item_bbox d' = Some box \<and>
                  item_cat_id d' = Some c
                  \<longrightarrow> (\<exists>wh. box_size box = Inr wh)))"
  shows "\<exists>out. convert env limit = Inr out"
proof -
  from assms have "\<forall>f\<in>set (iter_annos (annos env)). \<exists>d. snd f = Some (JObj d) \<and>
             (\<forall>img. find_image (image_files env) (path_stem (fst f)) = Some img
                \<longrightarrow> image_size env d img \<noteq> None) \<and>
             (\<forall>kv\<in>set d. \<forall>d' box c.
                startswith (fst kv) ''item'' \<and> snd kv = JObj d' \<and> item_bbox d' = Some box \<and>
                item_cat_id d' = Some c
                \<longrightarrow> (\<exists>wh. box_size box = Inr wh))"
    by (simp add: iter_annos_def)
  then have "\<exists>st'. conv_loop env limit (iter_annos (annos env)) init_state = Inr st'"
    by (rule conv_loop_total)
  then show ?thesis
    by (auto simp: convert_def)
qed

text \<open>
  Claim C2. Whenever the converter completes, every annotation it emits has width and
  height above 1 and the float product of the two as its area, and the emitted images are
  those of all the annotation files whose image is found, in the order of the loop (the
  first \<open>limit\<close> of them under a limit, at least one): an image is there whatever became
  of the items of its document. A document whose items that pass the tests of the loop
  all have a box of width or height at most 1 appends its image record and no annotation.
  The run completes when every annotation file holds an object, every image found has a
  size, and no conversion \<open>float(x)\<close> of a box coordinate overflows.
\<close>

theorem no_degenerate_box_survives:
  "(convert env limit = Inr out \<longrightarrow>
      (\<forall>a\<in>set (annotations out).
         case bbox a of (x, y, w, h) \<Rightarrow>
           fgt w (Finite 1) \<and> fgt h (Finite 1) \<and> area a = fmul w h)
      \<and> map file_name (images out) =
          (if limit = 0 then paired_images env
           else take (nat (max 1 limit)) (paired_images env)))
   \<and> ((\<forall>kv\<in>set d. \<forall>d' box c.
          startswith (fst kv) ''item'' \<and> snd kv = JObj d' \<and> item_bbox d' = Some box \<and>
          item_cat_id d' = Some c
          \<longrightarrow> (\<exists>w h. box_size box = Inr (w, h) \<and> (fle w (Finite 1) \<or> fle h (Finite 1))))
      \<longrightarrow> (\<exists>st'. process_doc d img wh st = Inr st' \<and>
             st_images st' = st_images st @
               [\<lparr>img_id = image_id st, file_name = img, width = fst wh, height = snd wh\<rparr>] \<and>
             st_annotations st' = st_annotations st \<and> image_id st' = image_id st + 1))
   \<and> ((\<forall>f\<in>set (annos env'). endswith (fst f) ''.json'' \<longrightarrow>
          (\<exists>d. snd f = Some (JObj d) \<and>
            (\<forall>img. find_image (image_files env') (path_stem (fst f)) = Some img
               \<longrightarrow> image_size env' d img \<noteq> None) \<and>
            (\<forall>kv\<in>set d. \<forall>d' box c.
               startswith (fst kv) ''item'' \<and> snd kv = JObj d' \<and> item_bbox d' = Some box \<and>
               item_cat_id d' = Some c
               \<longrightarrow> (\<exists>wh. box_size box = Inr wh))))
      \<longrightarrow> (\<exists>out'. convert env' limit' = Inr out'))"
proof (intro conjI impI)
  assume "convert env limit = Inr out"
  from convert_valid [OF this]
  show "\<forall>a\<in>set (annotations out).
          case bbox a of (x, y, w, h) \<Rightarrow>
            fgt w (Finite 1) \<and> fgt h (Finite 1) \<and> area a = fmul w h"
    by (simp add: list_all_iff valid_box_def)
next
  assume "convert env limit = Inr out"
  then show "map file_name (images out) =
          (if limit = 0 then paired_images env
           else take (nat (max 1 limit)) (paired_images env))"
    by (rule convert_images)
next
  assume "\<forall>kv\<in>set d. \<forall>d' box c.
          startswith (fst kv) ''item'' \<and> snd kv = JObj d' \<and> item_bbox d' = Some box \<and>
          item_cat_id d' = Some c
          \<longrightarrow> (\<exists>w h. box_size box = Inr (w, h) \<and> (fle w (Finite 1) \<or> fle h (Finite 1)))"
  then show "\<exists>st'. process_doc d img wh st = Inr st' \<and>
             st_images st' = st_images st @
               [\<lparr>img_id = image_id st, file_name = img, width = fst wh, height = snd wh\<rparr>] \<and>
             st_annotations st' = st_annotations st \<and> image_id st' = image_id st + 1"
    by (rule process_doc_degenerate)
next
  assume "\<forall>f\<in>set (annos env'). endswith (fst f) ''.json'' \<longrightarrow>
          (\<exists>d. snd f = Some (JObj d) \<and>
            (\<forall>img. find_image (image_files env') (path_stem (fst f)) = Some img
               \<longrightarrow> image_size env' d img \<noteq> None) \<and>
            (\<forall>kv\<in>set d. \<forall>d' box c.
               startswith (fst kv) ''item'' \<and> snd kv = JObj d' \<and> item_bbox d' = Some box \<and>
               item_cat_id d' = Some c
               \<longrightarrow> (\<exists>wh. box_size box = Inr wh)))"
  then show "\<exists>out'. convert env' limit' = Inr out'"
    by (rule convert_total)
qed

theorem no_degenerate_box_survives_witness:
  "convert two_doc_split 0 =
     Inr \<lparr>images = [\<lparr>img_id = 0, file_name = ''000001.jpg'', width = 200, height = 300\<rparr>,
                    \<lparr>img_id = 1, file_name = ''000002.jpg'', width = 200, height = 300\<rparr>],
          annotations = [\<lparr>ann_ident = 0, image_ident = 1, category_id = 3,
                          bbox = (Finite 10, Finite 10, Finite 40, Finite 50),
                          area = Finite 2000, iscrowd = 0, segmentation = []\<rparr>],
          categories = [\<lparr>cat_ident = 3, cat_name = ''top'',
                         supercategory = ''clothing''\<rparr>]\<rparr>
   \<and> fgt (Finite 40) (Finite 1) \<and> fgt (Finite 50) (Finite 1)
   \<and> Finite 2000 = fmul (Finite 40) (Finite 50)
   \<and> paired_images two_doc_split = [''000001.jpg'', ''000002.jpg'']
   \<and> (\<exists>st'. process_doc [(''height'', JInt 300), (''width'', JInt 200),
                           (''item1'', JObj degenerate_item)]
                ''000001.jpg'' (200, 300) init_state = Inr st' \<and>
            st_images st' =
              [\<lparr>img_id = 0, file_name = ''000001.jpg'', width = 200, height = 300\<rparr>] \<and>
            st_annotations st' = [] \<and> image_id st' = 1)
   \<and> (\<exists>out'. convert two_doc_split 1 = Inr out')"
proof -
  let ?out = "\<lparr>images = [\<lparr>img_id = 0, file_name = ''000001.jpg'', width = 200, height = 300\<rparr>,
                    \<lparr>img_id = 1, file_name = ''000002.jpg'', width = 200, height = 300\<rparr>],
          annotations = [\<lparr>ann_ident = 0, image_ident = 1, category_id = 3,
                          bbox = (Finite 10, Finite 10, Finite 40, Finite 50),
                          area = Finite 2000, iscrowd = 0, segmentation = []\<rparr>],
          categories = [\<lparr>cat_ident = 3, cat_name = ''top'',
                         supercategory = ''clothing''\<rparr>]\<rparr>"
  let ?d = "[(''height'', JInt 300), (''width'', JInt 200), (''item1'', JObj degenerate_item)]"
  have srt: "iter_annos (annos two_doc_split)
      = [(''000001.json'', Some degenerate_doc), (''000002.json'', Some scenario_doc)]"
    by (simp add: iter_annos_def two_doc_split_def endswith_def)
  have c: "convert two_doc_split 0 = Inr ?out"
    unfolding convert_def srt
    by (simp add: conv_eval_defs two_doc_split_def)
  have h3: "\<forall>kv\<in>set ?d. \<forall>d' box c.
          startswith (fst kv) ''item'' \<and> snd kv = JObj d' \<and> item_bbox d' = Some box \<and>
          item_cat_id d' = Some c
          \<longrightarrow> (\<exists>w h. box_size box = Inr (w, h) \<and> (fle w (Finite 1) \<or> fle h (Finite 1)))"
    by (simp add: startswith_def item_bbox_def degenerate_item_def dict_get_def box_size_def
        float_of_int_samples fsub_samples max_zero_samples fle_samples)
  have h4: "\<forall>f\<in>set (annos two_doc_split). endswith (fst f) ''.json'' \<longrightarrow>
          (\<exists>d. snd f = Some (JObj d) \<and>
            (\<forall>img. find_image (image_files two_doc_split) (path_stem (fst f)) = Some img
               \<longrightarrow> image_size two_doc_split d img \<noteq> None) \<and>
            (\<forall>kv\<in>set d. \<forall>d' box c.
               startswith (fst kv) ''item'' \<and> snd kv = JObj d' \<and> item_bbox d' = Some box \<and>
               item_cat_id d' = Some c
               \<longrightarrow> (\<exists>wh. box_size box = Inr wh)))"
    by (simp add: two_doc_split_def scenario_doc_def degenerate_doc_def image_size_def
        startswith_def item_bbox_def dict_get_def box_size_def float_of_int_samples)
  note inst = no_degenerate_box_survives
    [of two_doc_split 0 ?out ?d "''000001.jpg''" "(200, 300)" init_state two_doc_split 1]
  from inst c have p1: "fgt (Finite 40) (Finite 1) \<and> fgt (Finite 50) (Finite 1)
      \<and> Finite 2000 = fmul (Finite 40) (Finite 50)"
    by simp
  from inst c have p2: "paired_images two_doc_split = [''000001.jpg'', ''000002.jpg'']"
    by simp
  from inst h3 have p3: "\<exists>st'. process_doc ?d ''000001.jpg'' (200, 300) init_state = Inr st' \<and>
            st_images st' =
              [\<lparr>img_id = 0, file_name = ''000001.jpg'', width = 200, height = 300\<rparr>] \<and>
            st_annotations st' = [] \<and> image_id st' = 1"
    by (simp add: init_state_def)
  from inst h4 have p4: "\<exists>out'. convert two_doc_split 1 = Inr out'"
    by blast
  from c p1 p2 p3 p4 show ?thesis
    by blast
qed

text \<open>An integer coordinate too large for a double ends the run at the conversion.\<close>

lemma overflow_ends_run: "convert (scenario_split overflow_doc) limit = Inl OverflowError"
  by (simp add: convert_def iter_annos_def endswith_def find_image_def path_stem_def
      rfind_dot_def image_size_def dict_get_def process_doc_def process_item_def annotate_def
      box_size_def register_name_def startswith_def item_bbox_def item_cat_id_def
      setdefault_def init_state_def scenario_split_def overflow_doc_def
      float_of_int_overflows del: power_numeral)

lemma setdefault_map_of:
  "map_of (setdefault c n reg) c' =
     (if c' = c \<and> map_of reg c = None then Some n else map_of reg c')"
proof (cases "c \<in> fst ` set reg")
  case True
  then have "map_of reg c \<noteq> None"
    by (simp add: map_of_eq_None_iff)
  with True show ?thesis
    by (simp add: setdefault_def)
next
  case False
  then have "map_of reg c = None"
    by (simp add: map_of_eq_None_iff)
  with False show ?thesis
    by (cases "map_of reg c'") (auto simp: setdefault_def map_add_def)
qed

lemma setdefault_distinct:
  "distinct (map fst reg) \<Longrightarrow> distinct (map fst (setdefault c n reg))"
  by (simp add: setdefault_def)

lemma process_item_keeps_name:
  assumes "process_item st kv = Inr st'" "map_of (cat_id_to_name st) c = Some n0"
  shows "map_of (cat_id_to_name st') c = Some n0"
  using process_item_registry [OF assms(1)] assms(2) by (auto simp: setdefault_map_of)

lemma process_item_reg_distinct:
  assumes "process_item st kv = Inr st'" "distinct (map fst (cat_id_to_name st))"
  shows "distinct (map fst (cat_id_to_name st'))"
  using process_item_registry [OF assms(1)] assms(2) by (auto simp: setdefault_distinct)

lemma process_items_keeps_name:
  "process_items st d = Inr st' \<Longrightarrow> map_of (cat_id_to_name st) c = Some n0 \<Longrightarrow>
   map_of (cat_id_to_name st') c = Some n0"
proof (induction d arbitrary: st)
  case Nil
  then show ?case by simp
next
  case (Cons kv d)
  from Cons.prems(1) obtain st1 where 1: "process_item st kv = Inr st1"
    and 2: "process_items st1 d = Inr st'"
    by (auto split: sum.splits)
  from Cons.IH [OF 2 process_item_keeps_name [OF 1 Cons.prems(2)]] show ?case .
qed

lemma process_items_reg_distinct:
  "process_items st d = Inr st' \<Longrightarrow> distinct (map fst (cat_id_to_name st)) \<Longrightarrow>
   distinct (map fst (cat_id_to_name st'))"
proof (induction d arbitrary: st)
  case Nil
  then show ?case by simp
next
  case (Cons kv d)
  from Cons.prems(1) obtain st1 where 1: "process_item st kv = Inr st1"
    and 2: "process_items st1 d = Inr st'"
    by (auto split: sum.splits)
  from Cons.IH [OF 2 process_item_reg_distinct [OF 1 Cons.prems(2)]] show ?case .
qed

lemma process_doc_keeps_name:
  assumes "process_doc d n wh st = Inr st'" "map_of (cat_id_to_name st) c = Some n0"
  shows "map_of (cat_id_to_name st') c = Some n0"
  using assms
  by (auto simp: process_doc_def split: sum.splits dest: process_items_keeps_name)

lemma process_doc_reg_distinct:
  assumes "process_doc d n wh st = Inr st'" "distinct (map fst (cat_id_to_name st))"
  shows "distinct (map fst (cat_id_to_name st'))"
  using assms
  by (auto simp: process_doc_def split: sum.splits dest: process_items_reg_distinct)

lemma conv_loop_keeps_name:
  "conv_loop env limit fs st = Inr st' \<Longrightarrow> map_of (cat_id_to_name st) c = Some n0 \<Longrightarrow>
   map_of (cat_id_to_name st') c = Some n0"
proof (induction fs arbitrary: st)
  case Nil
  then show ?case by simp
next
  case (Cons f rest)
  obtain name parsed where f: "f = (name, parsed)" by (cases f)
  show ?case using Cons.prems unfolding f
    by (auto split: option.splits json.splits sum.splits if_splits
        intro: Cons.IH process_doc_keeps_name)
qed

lemma conv_loop_reg_distinct:
  "conv_loop env limit fs st = Inr st' \<Longrightarrow> distinct (map fst (cat_id_to_name st)) \<Longrightarrow>
   distinct (map fst (cat_id_to_name st'))"
proof (induction fs arbitrary: st)
  case Nil
  then show ?case by simp
next
  case (Cons f rest)
  obtain name parsed where f: "f = (name, parsed)" by (cases f)
  show ?case using Cons.prems unfolding f
    by (auto split: option.splits json.splits sum.splits if_splits
        intro: Cons.IH process_doc_reg_distinct)
qed

lemma emit_categories_ids: "map cat_ident (emit_categories reg) = sort (map fst reg)"
  by (simp add: emit_categories_def o_def)

lemma convert_categories_sorted:
  assumes "convert env limit = Inr out"
  shows "sorted (map cat_ident (categories out)) \<and> distinct (map cat_ident (categories out))"
proof -
  from assms obtain st where l: "conv_loop env limit (iter_annos (annos env)) init_state = Inr st"
    and o: "categories out = emit_categories (cat_id_to_name st)"
    by (auto simp: convert_def split: sum.splits)
  have "distinct (map fst (cat_id_to_name st))"
    by (rule conv_loop_reg_distinct [OF l]) (simp add: init_state_def)
  then show ?thesis by (simp add: o emit_categories_ids)
qed

lemma item_bbox_numbers:
  "item_bbox d = Some (x1, y1, x2, y2) \<Longrightarrow>
   is_number x1 \<and> is_number y1 \<and> is_number x2 \<and> is_number y2"
  by (auto simp: item_bbox_def split: option.splits json.splits list.splits if_splits)

lemma py_float_number:
  "is_number j \<Longrightarrow> (\<exists>f. py_float j = Inr f) \<or> py_float j = Inl OverflowError"
  by (cases j) (auto simp: float_of_int_def split: pyfloat.splits)

lemma annotate_result:
  assumes "is_number x1" "is_number y1" "is_number x2" "is_number y2"
  shows "if py_float x2 = Inl OverflowError \<or> py_float x1 = Inl OverflowError \<or>
            py_float y2 = Inl OverflowError \<or> py_float y1 = Inl OverflowError
         then annotate st cat (x1, y1, x2, y2) = Inl OverflowError
         else \<exists>st'. annotate st cat (x1, y1, x2, y2) = Inr st'"
  using py_float_number [OF assms(1)] py_float_number [OF assms(2)]
    py_float_number [OF assms(3)] py_float_number [OF assms(4)]
  by (auto simp: annotate_def box_size_def)

text \<open>
  Claim C6, as the code has it. The category name is stored before the degeneracy test:
  the scenario document with the box of width one half emits no annotation, and its
  category 3 is in the emitted categories all the same.
\<close>

theorem degenerate_item_registers_category:
  "convert (scenario_split degenerate_doc) 0 =
     Inr \<lparr>images = [\<lparr>img_id = 0, file_name = ''000001.jpg'', width = 200, height = 300\<rparr>],
          annotations = [],
          categories = [\<lparr>cat_ident = 3, cat_name = ''top'',
                         supercategory = ''clothing''\<rparr>]\<rparr>"
  by (simp add: conv_eval_defs)

text \<open>
  Claim C6, amended. An item whose key does not start with \<open>item\<close>, or whose box is not
  a list of four numbers, or whose category id is not an integer, leaves the state as it
  is. An item that passes these three tests and carries a string name ends the run with
  \<open>OverflowError\<close> when one of its box coordinates is an integer too large for a double;
  otherwise it returns, and the registry then holds the name when the category id had none
  yet, and is unchanged when it had one, whatever the size of the box. A name once stored
  for an id is still the one stored when the run completes. The emitted categories are
  strictly ascending by id.
\<close>

theorem category_registry_first_writer_sorted:
  "(\<not> startswith k1 ''item'' \<or> item_bbox d1 = None \<or> item_cat_id d1 = None \<longrightarrow>
      process_item st1 (k1, JObj d1) = Inr st1)
   \<and> (startswith k2 ''item'' \<and> item_bbox d2 = Some (x1, y1, x2, y2) \<and>
      item_cat_id d2 = Some c \<and> dict_get d2 ''category_name'' = Some (JStr n) \<longrightarrow>
      (if py_float x2 = Inl OverflowError \<or> py_float x1 = Inl OverflowError \<or>
          py_float y2 = Inl OverflowError \<or> py_float y1 = Inl OverflowError
       then process_item st2 (k2, JObj d2) = Inl OverflowError
       else \<exists>st'. process_item st2 (k2, JObj d2) = Inr st' \<and>
              cat_id_to_name st' =
                (if c \<in> fst ` set (cat_id_to_name st2) then cat_id_to_name st2
                 else cat_id_to_name st2 @ [(c, n)])))
   \<and> (conv_loop env limit fs st = Inr st' \<and> map_of (cat_id_to_name st) c' = Some n0 \<longrightarrow>
      map_of (cat_id_to_name st') c' = Some n0)
   \<and> (convert env4 limit4 = Inr out \<longrightarrow>
      sorted (map cat_ident (categories out)) \<and> distinct (map cat_ident (categories out)))"
proof (intro conjI impI)
  assume "\<not> startswith k1 ''item'' \<or> item_bbox d1 = None \<or> item_cat_id d1 = None"
  then show "process_item st1 (k1, JObj d1) = Inr st1"
    by (auto simp: process_item_def split: option.splits)
next
  assume h: "startswith k2 ''item'' \<and> item_bbox d2 = Some (x1, y1, x2, y2) \<and>
      item_cat_id d2 = Some c \<and> dict_get d2 ''category_name'' = Some (JStr n)"
  let ?st = "st2\<lparr>cat_id_to_name := setdefault c n (cat_id_to_name st2)\<rparr>"
  from h have p: "process_item st2 (k2, JObj d2) = annotate ?st c (x1, y1, x2, y2)"
    by (simp add: process_item_def register_name_def)
  from h have num: "is_number x1" "is_number y1" "is_number x2" "is_number y2"
    using item_bbox_numbers [of d2 x1 y1 x2 y2] by simp_all
  note r = annotate_result [OF num, of ?st c]
  show "if py_float x2 = Inl OverflowError \<or> py_float x1 = Inl OverflowError \<or>
          py_float y2 = Inl OverflowError \<or> py_float y1 = Inl OverflowError
       then process_item st2 (k2, JObj d2) = Inl OverflowError
       else \<exists>st'. process_item st2 (k2, JObj d2) = Inr st' \<and>
              cat_id_to_name st' =
                (if c \<in> fst ` set (cat_id_to_name st2) then cat_id_to_name st2
                 else cat_id_to_name st2 @ [(c, n)])"
  proof (cases "py_float x2 = Inl OverflowError \<or> py_float x1 = Inl OverflowError \<or>
          py_float y2 = Inl OverflowError \<or> py_float y1 = Inl OverflowError")
    case True
    with r have "annotate ?st c (x1, y1, x2, y2) = Inl OverflowError"
      by (simp only: if_True)
    with True show ?thesis
      by (simp only: p if_True)
  next
    case False
    with r obtain st' where a: "annotate ?st c (x1, y1, x2, y2) = Inr st'"
      by (auto simp only: if_False)
    from annotate_frame(3) [OF a]
    have "cat_id_to_name st' =
            (if c \<in> fst ` set (cat_id_to_name st2) then cat_id_to_name st2
             else cat_id_to_name st2 @ [(c, n)])"
      by (simp add: setdefault_def)
    with a False show ?thesis
      by (simp only: p if_False) blast
  qed
next
  assume "conv_loop env limit fs st = Inr st' \<and> map_of (cat_id_to_name st) c' = Some n0"
  then show "map_of (cat_id_to_name st') c' = Some n0"
    using conv_loop_keeps_name by blast
next
  assume "convert env4 limit4 = Inr out"
  then show "sorted (map cat_ident (categories out))"
    using convert_categories_sorted by blast
next
  assume "convert env4 limit4 = Inr out"
  then show "distinct (map cat_ident (categories out))"
    using convert_categories_sorted by blast
qed

theorem category_registry_first_writer_sorted_witness:
  "\<not> startswith ''source'' ''item''
   \<and> process_item named_state (''source'', JObj degenerate_item) = Inr named_state
   \<and> startswith ''item1'' ''item''
   \<and> item_bbox degenerate_item = Some (JInt 10, JInt 10, JFloat (Finite (21 / 2)), JInt 60)
   \<and> item_cat_id degenerate_item = Some 3
   \<and> dict_get degenerate_item ''category_name'' = Some (JStr ''top'')
   \<and> (\<exists>st'. process_item init_state (''item1'', JObj degenerate_item) = Inr st' \<and>
          cat_id_to_name st' = [(3, ''top'')])
   \<and> conv_loop (scenario_split scenario_doc) 0 [(''000001.json'', Some scenario_doc)]
         named_state
       = Inr \<lparr>st_images = [\<lparr>img_id = 0, file_name = ''000001.jpg'', width = 200,
                              height = 300\<rparr>],
              st_annotations = [\<lparr>ann_ident = 0, image_ident = 0, category_id = 3,
                                  bbox = (Finite 10, Finite 10, Finite 40, Finite 50),
                                  area = Finite 2000, iscrowd = 0, segmentation = []\<rparr>],
              cat_id_to_name = [(3, ''shirt'')], image_id = 1, ann_id = 1\<rparr>
   \<and> map_of (cat_id_to_name named_state) 3 = Some ''shirt''
   \<and> map_of [(3::int, ''shirt'')] 3 = Some ''shirt''
   \<and> sorted [3::int] \<and> distinct [3::int]"
proof -
  let ?st' = "\<lparr>st_images = [\<lparr>img_id = 0, file_name = ''000001.jpg'', width = 200,
                              height = 300\<rparr>],
              st_annotations = [\<lparr>ann_ident = 0, image_ident = 0, category_id = 3,
                                  bbox = (Finite 10, Finite 10, Finite 40, Finite 50),
                                  area = Finite 2000, iscrowd = 0, segmentation = []\<rparr>],
              cat_id_to_name = [(3, ''shirt'')], image_id = 1, ann_id = 1\<rparr>"
  let ?out = "\<lparr>images = [\<lparr>img_id = 0, file_name = ''000001.jpg'', width = 200, height = 300\<rparr>],
          annotations = [\<lparr>ann_ident = 0, image_ident = 0, category_id = 3,
                          bbox = (Finite 10, Finite 10, Finite 40, Finite 50),
                          area = Finite 2000, iscrowd = 0, segmentation = []\<rparr>],
          categories = [\<lparr>cat_ident = 3, cat_name = ''top'',
                         supercategory = ''clothing''\<rparr>]\<rparr>"
  note inst = category_registry_first_writer_sorted
    [of "''source''" degenerate_item named_state
        "''item1''" degenerate_item "JInt 10" "JInt 10" "JFloat (Finite (21 / 2))" "JInt 60"
        3 "''top''" init_state
        "scenario_split scenario_doc" 0 "[(''000001.json'', Some scenario_doc)]" named_state
        ?st' 3 "''shirt''"
        "scenario_split scenario_doc" 0 ?out]
  have h1: "\<not> startswith ''source'' ''item''"
    by (simp add: startswith_def)
  have h2: "startswith ''item1'' ''item''"
    by (simp add: startswith_def)
  have h3: "item_bbox degenerate_item
      = Some (JInt 10, JInt 10, JFloat (Finite (21 / 2)), JInt 60)"
    by (simp add: item_bbox_def degenerate_item_def dict_get_def)
  have h4: "item_cat_id degenerate_item = Some 3"
    by (simp add: item_cat_id_def degenerate_item_def dict_get_def)
  have h5: "dict_get degenerate_item ''category_name'' = Some (JStr ''top'')"
    by (simp add: degenerate_item_def dict_get_def)
  have h6: "conv_loop (scenario_split scenario_doc) 0 [(''000001.json'', Some scenario_doc)]
         named_state = Inr ?st'"
    by (simp add: conv_eval_defs named_state_def)
  have h7: "map_of (cat_id_to_name named_state) 3 = Some ''shirt''"
    by (simp add: named_state_def init_state_def)
  have h8: "convert (scenario_split scenario_doc) 0 = Inr ?out"
    by (simp add: conv_eval_defs)
  from inst h1
  have c1: "process_item named_state (''source'', JObj degenerate_item) = Inr named_state"
    by simp
  from inst h2 h3 h4 h5
  have c2: "\<exists>st'. process_item init_state (''item1'', JObj degenerate_item) = Inr st' \<and>
          cat_id_to_name st' = [(3, ''top'')]"
    by (simp add: init_state_def float_of_int_samples)
  from inst h6 h7 have c3: "map_of [(3::int, ''shirt'')] 3 = Some ''shirt''"
    by simp
  from inst h8 have c4: "sorted [3::int] \<and> distinct [3::int]"
    by simp
  from h1 c1 h2 h3 h4 h5 c2 h6 h7 c3 c4 show ?thesis
    by blast
qed
subsection \<open>Polyvore ingestion\<close>

lemma norm_items_map:
  "norm_items repr sid xs = Inr refs \<Longrightarrow>
   \<exists>its. xs = map JObj its \<and> refs = map (norm_item repr sid) its"
proof (induction repr sid xs arbitrary: refs rule: norm_items.induct)
  case (1 repr sid)
  then show ?case by simp
next
  case (2 repr sid it rest)
  from "2.prems" obtain refs' where r: "norm_items repr sid rest = Inr refs'"
    and refs: "refs = norm_item repr sid it # refs'"
    by (auto split: sum.splits)
  from "2.IH" [OF r] obtain its where "rest = map JObj its"
    and "refs' = map (norm_item repr sid) its"
    by blast
  then have "JObj it # rest = map JObj (it # its) \<and> refs = map (norm_item repr sid) (it # its)"
    by (simp add: refs)
  then show ?case by (rule exI)
qed simp_all

lemma first_items_list:
  "dict_get d ''items'' = Some (JList xs) \<Longrightarrow> first_items d = Inr (take 8 xs)"
  by (cases xs) (simp_all add: first_items_def)

lemma first_items_length:
  "first_items d = Inr its \<Longrightarrow> length its \<le> 8"
  by (auto simp: first_items_def split: option.splits if_splits json.splits)

lemma process_outfit_items:
  assumes "process_outfit repr split outfit = Inr (Some r)"
  shows "\<exists>d its ds. outfit = JObj d \<and> first_items d = Inr its \<and> its = map JObj ds \<and>
           o_items r = map (norm_item repr (o_set_id r)) ds"
proof -
  from assms obtain d where d: "outfit = JObj d"
    by (cases outfit) (simp_all add: process_outfit_def)
  from assms d obtain its refs where its: "first_items d = Inr its"
    and refs: "norm_items repr (o_set_id r) its = Inr refs" and r: "o_items r = refs"
    by (auto simp: process_outfit_def Let_def split: if_splits sum.splits)
  from norm_items_map [OF refs] r d its show ?thesis
    by blast
qed

lemma process_outfit_length:
  assumes "process_outfit repr split outfit = Inr (Some r)"
  shows "length (o_items r) \<le> 8"
proof -
  from process_outfit_items [OF assms] obtain d its ds
    where "first_items d = Inr its" "its = map JObj ds"
      "o_items r = map (norm_item repr (o_set_id r)) ds"
    by blast
  then show ?thesis using first_items_length [of d its] by simp
qed

lemma write_outfits_length:
  "r \<in> set (fst (write_outfits repr split outfits)) \<Longrightarrow> length (o_items r) \<le> 8"
proof (induction outfits)
  case Nil
  then show ?case by simp
next
  case (Cons outfit rest)
  then show ?case
    by (auto split: sum.splits option.splits prod.splits dest: process_outfit_length)
qed

lemma write_splits_length:
  "r \<in> set (fst (write_splits repr splits)) \<Longrightarrow> length (o_items r) \<le> 8"
proof (induction repr splits rule: write_splits.induct)
  case (1 repr)
  then show ?case by simp
next
  case (2 repr split path content rest)
  show ?case
  proof (cases content)
    case None
    with "2.prems" show ?thesis by simp
  next
    case (Some parsed)
    show ?thesis
    proof (cases parsed)
      case None
      with Some "2.prems" show ?thesis by simp
    next
      case inner: (Some j)
      show ?thesis
      proof (cases j)
        case (JList outfits)
        obtain rs e where w: "write_outfits repr split outfits = (rs, e)"
          by (cases "write_outfits repr split outfits")
        have rs: "\<And>x. x \<in> set rs \<Longrightarrow> length (o_items x) \<le> 8"
          using write_outfits_length [of _ repr split outfits] by (simp add: w)
        show ?thesis
        proof (cases e)
          case None
          obtain rs' e' where w': "write_splits repr rest = (rs', e')"
            by (cases "write_splits repr rest")
          from "2.prems" Some inner JList w None w'
          have "r \<in> set rs \<or> r \<in> set rs'" by simp
          then show ?thesis
          proof
            assume "r \<in> set rs"
            then show ?thesis by (rule rs)
          next
            assume "r \<in> set rs'"
            then have "r \<in> set (fst (write_splits repr rest))" by (simp add: w')
            with "2.IH" [OF Some inner JList w [symmetric] None] show ?thesis
              by simp
          qed
        next
          case (Some err)
          with "2.prems" \<open>content = Some parsed\<close> inner JList w
          have "r \<in> set rs" by simp
          then show ?thesis by (rule rs)
        qed
      qed (use Some inner "2.prems" in simp_all)
    qed
  qed
qed

text \<open>
  Claim C9. Every outfit record written by the Polyvore ingestion, also by a run that
  fails later, has at most eight item references; a record written for an outfit whose
  \<open>items\<close> is a list holds the normalised first eight entries of that list and no other.
\<close>

theorem outfit_items_at_most_eight:
  "(\<forall>r\<in>set (fst (ingest_outfits repr dir)). length (o_items r) \<le> 8)
   \<and> (process_outfit repr split (JObj d) = Inr (Some rec) \<and>
      dict_get d ''items'' = Some (JList xs) \<longrightarrow>
      (\<exists>its. take 8 xs = map JObj its \<and>
             o_items rec = map (norm_item repr (o_set_id rec)) its))"
proof (intro conjI impI ballI)
  fix r
  assume "r \<in> set (fst (ingest_outfits repr dir))"
  then show "length (o_items r) \<le> 8"
    by (simp add: ingest_outfits_def write_splits_length)
next
  assume h: "process_outfit repr split (JObj d) = Inr (Some rec) \<and>
      dict_get d ''items'' = Some (JList xs)"
  with process_outfit_items [of repr split "JObj d" rec] first_items_list [of d xs]
  show "\<exists>its. take 8 xs = map JObj its \<and>
             o_items rec = map (norm_item repr (o_set_id rec)) its"
    by auto
qed

theorem outfit_items_at_most_eight_witness:
  "sample_record \<in> set (fst (ingest_outfits repr_atom sample_polyvore))
   \<and> length (o_items sample_record) \<le> 8
   \<and> process_outfit repr_atom ''train'' (JObj sample_outfit) = Inr (Some sample_record)
   \<and> dict_get sample_outfit ''items''
       = Some (JList (map sample_item [1, 2, 3, 4, 5, 6, 7, 8, 9]))
   \<and> (\<exists>its. take 8 (map sample_item [1, 2, 3, 4, 5, 6, 7, 8, 9]) = map JObj its \<and>
          o_items sample_record = map (norm_item repr_atom (o_set_id sample_record)) its)"
proof -
  have p: "process_outfit repr_atom ''train'' (JObj sample_outfit) = Inr (Some sample_record)"
    by (simp add: process_outfit_def sample_outfit_def sample_record_def sample_ref_def
        py_str_def dict_get_def first_items_def sample_item_def norm_item_def
        get_or_null_def item_uid_def dec_nat.simps Let_def)
  have m: "sample_record \<in> set (fst (ingest_outfits repr_atom sample_polyvore))"
    by (simp add: ingest_outfits_def split_map_def sample_polyvore_def p)
  have g: "dict_get sample_outfit ''items''
       = Some (JList (map sample_item [1, 2, 3, 4, 5, 6, 7, 8, 9]))"
    by (simp add: sample_outfit_def dict_get_def)
  note inst = outfit_items_at_most_eight
    [of repr_atom sample_polyvore "''train''" sample_outfit sample_record
        "map sample_item [1, 2, 3, 4, 5, 6, 7, 8, 9]"]
  from inst m have l: "length (o_items sample_record) \<le> 8"
    by blast
  from inst p g
  have e: "\<exists>its. take 8 (map sample_item [1, 2, 3, 4, 5, 6, 7, 8, 9]) = map JObj its \<and>
          o_items sample_record = map (norm_item repr_atom (o_set_id sample_record)) its"
    by blast
  from m l p g e show ?thesis
    by blast
qed


subsection \<open>Archive Integrity Checker\<close>

lemma pick_encrypted_json_nonempty:
  "pick_encrypted_json infos = Some target \<Longrightarrow> target \<noteq> []"
  by (induction infos) (auto simp: endswith_def split: if_splits)

lemma report_step_line:
  "report_step src password (printed, failed) name =
     (printed @ [report_line src password name],
      failed \<or> is_fail (report_line src password name))"
  by (cases "check_zip name (src name) password")
     (simp add: report_step_def report_line_def)

lemma foldl_report_step:
  "foldl (report_step src password) (printed, failed) names =
     (printed @ map (report_line src password) names,
      failed \<or> (\<exists>n\<in>set names. is_fail (report_line src password n)))"
proof (induction names arbitrary: printed failed)
  case Nil
  then show ?case by simp
next
  case (Cons n names)
  show ?case
    by (subst foldl_Cons, subst report_step_line, subst Cons.IH) auto
qed

lemma check_main_eq:
  "check_main True src password =
     (map (report_line src password) (ZIP_NAMES @ OPTIONAL_ZIPS),
      if \<exists>n\<in>set (ZIP_NAMES @ OPTIONAL_ZIPS). is_fail (report_line src password n)
      then 3 else 0)"
  unfolding check_main_def foldl_report_step by simp

lemma check_main_line:
  "name \<in> set (ZIP_NAMES @ OPTIONAL_ZIPS) \<Longrightarrow>
   report_line src password name \<in> set (fst (check_main True src password))"
  unfolding check_main_eq by auto

lemma check_main_code:
  "snd (check_main True src password) =
     (if \<exists>l\<in>set (fst (check_main True src password)). is_fail l then 3 else 0)"
  unfolding check_main_eq by (simp add: bex_Un)

lemma check_zip_open_failed:
  "check_zip name (Some (Inl e)) password =
     (False, case e of RuntimeError msg \<Rightarrow> ''decrypt/read failed: '' @ msg
                     | OtherException ty msg \<Rightarrow> ''error: '' @ ty @ '': '' @ msg)"
  by (simp add: check_zip_def check_zip_try_def split: exn.splits)

lemma check_zip_read_failed:
  assumes "pick_encrypted_json (infolist zf) = Some target"
    and "read zf target password = Inl e"
  shows "check_zip name (Some (Inr zf)) password =
     (False, case e of RuntimeError msg \<Rightarrow> ''decrypt/read failed: '' @ msg
                     | OtherException ty msg \<Rightarrow> ''error: '' @ ty @ '': '' @ msg)"
  using assms pick_encrypted_json_nonempty [OF assms(1)]
  by (simp add: check_zip_def check_zip_try_def split: exn.splits)

lemma report_line_existing:
  assumes "src name = Some opened"
  shows "report_line src password name =
     Report name (if fst (check_zip name (src name) password) then OK else FAIL)
       (snd (check_zip name (src name) password))"
  using assms
  by (cases "check_zip name (src name) password") (simp add: report_line_def report_step_def)

lemma report_line_shape: "\<exists>v msg. report_line src password name = Report name v msg"
  by (cases "check_zip name (src name) password") (simp add: report_line_def report_step_def)

lemma required_disjoint: "n \<in> set ZIP_NAMES \<Longrightarrow> n \<notin> set OPTIONAL_ZIPS"
  by (auto simp: ZIP_NAMES_def OPTIONAL_ZIPS_def)

text \<open>
  Claim C4, as the code has it. When \<open>src_dir\<close> is not a directory, \<open>main\<close> returns exit
  code 2 before any archive is looked at: no line says FAIL, the required archive
  \<open>train.zip\<close> is absent, and the result is not success.
\<close>

theorem not_a_directory_exit:
  "check_main False no_files ''2019Deepfashion2**'' = ([NotADirectory], 2)
   \<and> no_files ''train.zip'' = None \<and> \<not> is_fail NotADirectory"
  by (simp add: check_main_def no_files_def)

text \<open>
  Claim C4, amended. \<open>_check_zip\<close> returns a verdict for every archive and every
  exception of the library (\<open>RuntimeError\<close> stands for the class and its subclasses,
  \<open>OtherException\<close> for every other subclass of \<open>Exception\<close>): for an existing archive
  that the library cannot open, and for one whose encrypted entry cannot be read with the
  password given, the exception becomes the verdict \<open>False\<close>, with the message
  \<open>decrypt/read failed\<close> for a \<open>RuntimeError\<close> and \<open>error\<close> with the type name for any
  other, printed as FAIL. When the source directory exists, every archive name gets one
  line; an existing archive is printed as OK or as FAIL with the verdict of \<open>_check_zip\<close>,
  an absent archive of the required set as FAIL, an absent archive of the optional set as
  SKIP, and the exit code is 0 exactly when no line says FAIL. When the source path is no
  directory, \<open>main\<close> prints one line that names no archive and returns 2, whatever the
  archives and the password.
\<close>

theorem archives_classified:
  "(src0 name0 = Some (Inl e0) \<longrightarrow>
      check_zip name0 (src0 name0) pw0 =
        (False, case e0 of RuntimeError msg \<Rightarrow> ''decrypt/read failed: '' @ msg
                         | OtherException ty msg \<Rightarrow> ''error: '' @ ty @ '': '' @ msg) \<and>
      (name0 \<in> set (ZIP_NAMES @ OPTIONAL_ZIPS) \<longrightarrow>
         Report name0 FAIL
           (case e0 of RuntimeError msg \<Rightarrow> ''decrypt/read failed: '' @ msg
                     | OtherException ty msg \<Rightarrow> ''error: '' @ ty @ '': '' @ msg)
           \<in> set (fst (check_main True src0 pw0))))
   \<and> (src name = Some (Inr zf) \<and> pick_encrypted_json (infolist zf) = Some target \<and>
      read zf target password = Inl e \<longrightarrow>
      check_zip name (src name) password =
        (False, case e of RuntimeError msg \<Rightarrow> ''decrypt/read failed: '' @ msg
                        | OtherException ty msg \<Rightarrow> ''error: '' @ ty @ '': '' @ msg) \<and>
      (name \<in> set (ZIP_NAMES @ OPTIONAL_ZIPS) \<longrightarrow>
         Report name FAIL
           (case e of RuntimeError msg \<Rightarrow> ''decrypt/read failed: '' @ msg
                    | OtherException ty msg \<Rightarrow> ''error: '' @ ty @ '': '' @ msg)
           \<in> set (fst (check_main True src password))))
   \<and> (n1 \<in> set ZIP_NAMES \<and> src1 n1 = None \<longrightarrow>
        Report n1 FAIL (''missing: '' @ n1) \<in> set (fst (check_main True src1 pw1)))
   \<and> (n2 \<in> set OPTIONAL_ZIPS \<and> src2 n2 = None \<longrightarrow>
        Report n2 SKIP ''(not present)'' \<in> set (fst (check_main True src2 pw2)))
   \<and> (snd (check_main True src3 pw3) = 0 \<longleftrightarrow>
        (\<forall>l\<in>set (fst (check_main True src3 pw3)). \<not> is_fail l))
   \<and> (n4 \<in> set (ZIP_NAMES @ OPTIONAL_ZIPS) \<longrightarrow>
        (\<exists>v msg. Report n4 v msg \<in> set (fst (check_main True src4 pw4))) \<and>
        (src4 n4 \<noteq> None \<longrightarrow>
           Report n4 (if fst (check_zip n4 (src4 n4) pw4) then OK else FAIL)
             (snd (check_zip n4 (src4 n4) pw4))
           \<in> set (fst (check_main True src4 pw4))))
   \<and> check_main False src5 pw5 = ([NotADirectory], 2)"
proof (intro conjI impI)
  assume h: "src0 name0 = Some (Inl e0)"
  then show "check_zip name0 (src0 name0) pw0 =
        (False, case e0 of RuntimeError msg \<Rightarrow> ''decrypt/read failed: '' @ msg
                         | OtherException ty msg \<Rightarrow> ''error: '' @ ty @ '': '' @ msg)"
    by (simp only: check_zip_open_failed)
  assume n: "name0 \<in> set (ZIP_NAMES @ OPTIONAL_ZIPS)"
  from report_line_existing [of src0 name0 _ pw0, OF h] h
  have "report_line src0 pw0 name0 = Report name0 FAIL
           (case e0 of RuntimeError msg \<Rightarrow> ''decrypt/read failed: '' @ msg
                     | OtherException ty msg \<Rightarrow> ''error: '' @ ty @ '': '' @ msg)"
    by (simp add: check_zip_open_failed)
  with check_main_line [OF n, of src0 pw0]
  show "Report name0 FAIL
           (case e0 of RuntimeError msg \<Rightarrow> ''decrypt/read failed: '' @ msg
                     | OtherException ty msg \<Rightarrow> ''error: '' @ ty @ '': '' @ msg)
           \<in> set (fst (check_main True src0 pw0))"
    by simp
next
  assume h: "src name = Some (Inr zf) \<and> pick_encrypted_json (infolist zf) = Some target \<and>
      read zf target password = Inl e"
  then have c: "check_zip name (Some (Inr zf)) password =
        (False, case e of RuntimeError msg \<Rightarrow> ''decrypt/read failed: '' @ msg
                        | OtherException ty msg \<Rightarrow> ''error: '' @ ty @ '': '' @ msg)"
    using check_zip_read_failed [of zf target password e name] by simp
  with h show "check_zip name (src name) password =
        (False, case e of RuntimeError msg \<Rightarrow> ''decrypt/read failed: '' @ msg
                        | OtherException ty msg \<Rightarrow> ''error: '' @ ty @ '': '' @ msg)"
    by simp
  assume n: "name \<in> set (ZIP_NAMES @ OPTIONAL_ZIPS)"
  from h have s: "src name = Some (Inr zf)" by simp
  from report_line_existing [of src name _ password, OF s] c s
  have "report_line src password name = Report name FAIL
           (case e of RuntimeError msg \<Rightarrow> ''decrypt/read failed: '' @ msg
                    | OtherException ty msg \<Rightarrow> ''error: '' @ ty @ '': '' @ msg)"
    by simp
  with check_main_line [OF n, of src password]
  show "Report name FAIL
           (case e of RuntimeError msg \<Rightarrow> ''decrypt/read failed: '' @ msg
                    | OtherException ty msg \<Rightarrow> ''error: '' @ ty @ '': '' @ msg)
           \<in> set (fst (check_main True src password))"
    by simp
next
  assume h: "n1 \<in> set ZIP_NAMES \<and> src1 n1 = None"
  then have "report_line src1 pw1 n1 = Report n1 FAIL (''missing: '' @ n1)"
    using required_disjoint [of n1] by (simp add: report_line_def report_step_def check_zip_def)
  moreover from h have "n1 \<in> set (ZIP_NAMES @ OPTIONAL_ZIPS)" by simp
  ultimately show "Report n1 FAIL (''missing: '' @ n1) \<in> set (fst (check_main True src1 pw1))"
    using check_main_line [of n1 src1 pw1] by simp
next
  assume h: "n2 \<in> set OPTIONAL_ZIPS \<and> src2 n2 = None"
  then have "report_line src2 pw2 n2 = Report n2 SKIP ''(not present)''"
    by (simp add: report_line_def report_step_def check_zip_def)
  moreover from h have "n2 \<in> set (ZIP_NAMES @ OPTIONAL_ZIPS)" by simp
  ultimately show "Report n2 SKIP ''(not present)'' \<in> set (fst (check_main True src2 pw2))"
    using check_main_line [of n2 src2 pw2] by simp
next
  show "snd (check_main True src3 pw3) = 0 \<longleftrightarrow>
        (\<forall>l\<in>set (fst (check_main True src3 pw3)). \<not> is_fail l)"
    by (subst check_main_code) auto
next
  assume n: "n4 \<in> set (ZIP_NAMES @ OPTIONAL_ZIPS)"
  from report_line_shape [of src4 pw4 n4] obtain v msg where
    "report_line src4 pw4 n4 = Report n4 v msg"
    by blast
  with check_main_line [OF n, of src4 pw4]
  have "Report n4 v msg \<in> set (fst (check_main True src4 pw4))"
    by simp
  then show "\<exists>v msg. Report n4 v msg \<in> set (fst (check_main True src4 pw4))"
    by (intro exI)
  assume "src4 n4 \<noteq> None"
  then obtain opened where "src4 n4 = Some opened"
    by auto
  from report_line_existing [of src4 n4 opened pw4, OF this] check_main_line [OF n, of src4 pw4]
  show "Report n4 (if fst (check_zip n4 (src4 n4) pw4) then OK else FAIL)
             (snd (check_zip n4 (src4 n4) pw4))
           \<in> set (fst (check_main True src4 pw4))"
    by simp
next
  show "check_main False src5 pw5 = ([NotADirectory], 2)"
    by (simp add: check_main_def)
qed

theorem archives_classified_witness:
  "damaged_src ''validation.zip''
       = Some (Inl (OtherException ''BadZipFile'' ''File is not a zip file''))
   \<and> check_zip ''validation.zip'' (damaged_src ''validation.zip'') ''wrong''
       = (False, ''error: BadZipFile: File is not a zip file'')
   \<and> ''validation.zip'' \<in> set (ZIP_NAMES @ OPTIONAL_ZIPS)
   \<and> Report ''validation.zip'' FAIL ''error: BadZipFile: File is not a zip file''
       \<in> set (fst (check_main True damaged_src ''wrong''))
   \<and> sample_src ''train.zip'' = Some (Inr locked_archive)
   \<and> pick_encrypted_json (infolist locked_archive) = Some ''train/annos/000001.json''
   \<and> read locked_archive ''train/annos/000001.json'' ''wrong''
       = Inl (RuntimeError ''Bad password for file'')
   \<and> check_zip ''train.zip'' (sample_src ''train.zip'') ''wrong''
       = (False, ''decrypt/read failed: Bad password for file'')
   \<and> ''train.zip'' \<in> set (ZIP_NAMES @ OPTIONAL_ZIPS)
   \<and> Report ''train.zip'' FAIL ''decrypt/read failed: Bad password for file''
       \<in> set (fst (check_main True sample_src ''wrong''))
   \<and> ''test.zip'' \<in> set ZIP_NAMES \<and> sample_src ''test.zip'' = None
   \<and> Report ''test.zip'' FAIL ''missing: test.zip''
       \<in> set (fst (check_main True sample_src ''wrong''))
   \<and> ''json_for_validation.zip'' \<in> set OPTIONAL_ZIPS
   \<and> sample_src ''json_for_validation.zip'' = None
   \<and> Report ''json_for_validation.zip'' SKIP ''(not present)''
       \<in> set (fst (check_main True sample_src ''wrong''))
   \<and> snd (check_main True sample_src ''wrong'') = 3
   \<and> is_fail (Report ''train.zip'' FAIL ''decrypt/read failed: Bad password for file'')
   \<and> (\<exists>v msg. Report ''validation.zip'' v msg
         \<in> set (fst (check_main True sample_src ''wrong'')))
   \<and> check_main False sample_src ''wrong'' = ([NotADirectory], 2)"
proof -
  note inst = archives_classified
    [of damaged_src "''validation.zip''" "OtherException ''BadZipFile'' ''File is not a zip file''"
        "''wrong''"
        sample_src "''train.zip''" locked_archive "''train/annos/000001.json''" "''wrong''"
        "RuntimeError ''Bad password for file''"
        "''test.zip''" sample_src "''wrong''"
        "''json_for_validation.zip''" sample_src "''wrong''" sample_src "''wrong''"
        "''validation.zip''" sample_src "''wrong''" sample_src "''wrong''"]
  have h0: "damaged_src ''validation.zip''
       = Some (Inl (OtherException ''BadZipFile'' ''File is not a zip file''))"
    by (simp add: damaged_src_def)
  have h0': "''validation.zip'' \<in> set (ZIP_NAMES @ OPTIONAL_ZIPS)"
    by (simp add: ZIP_NAMES_def)
  have h1: "sample_src ''train.zip'' = Some (Inr locked_archive)"
    by (simp add: sample_src_def)
  have h2: "pick_encrypted_json (infolist locked_archive) = Some ''train/annos/000001.json''"
    by (simp add: locked_archive_def endswith_def)
  have h3: "read locked_archive ''train/annos/000001.json'' ''wrong''
       = Inl (RuntimeError ''Bad password for file'')"
    by (simp add: locked_archive_def locked_read_def)
  have h4: "''train.zip'' \<in> set (ZIP_NAMES @ OPTIONAL_ZIPS)"
    by (simp add: ZIP_NAMES_def)
  have h5: "''test.zip'' \<in> set ZIP_NAMES \<and> sample_src ''test.zip'' = None"
    by (simp add: ZIP_NAMES_def sample_src_def)
  have h6: "''json_for_validation.zip'' \<in> set OPTIONAL_ZIPS
      \<and> sample_src ''json_for_validation.zip'' = None"
    by (simp add: OPTIONAL_ZIPS_def sample_src_def)
  have f: "is_fail (Report ''train.zip'' FAIL ''decrypt/read failed: Bad password for file'')"
    by simp
  from inst h0 h0'
  have c0': "check_zip ''validation.zip'' (damaged_src ''validation.zip'') ''wrong''
       = (False, case OtherException ''BadZipFile'' ''File is not a zip file'' of
                   RuntimeError msg \<Rightarrow> ''decrypt/read failed: '' @ msg
                 | OtherException ty msg \<Rightarrow> ''error: '' @ ty @ '': '' @ msg)
     \<and> Report ''validation.zip'' FAIL
         (case OtherException ''BadZipFile'' ''File is not a zip file'' of
            RuntimeError msg \<Rightarrow> ''decrypt/read failed: '' @ msg
          | OtherException ty msg \<Rightarrow> ''error: '' @ ty @ '': '' @ msg)
       \<in> set (fst (check_main True damaged_src ''wrong''))"
    by blast
  then have c0: "check_zip ''validation.zip'' (damaged_src ''validation.zip'') ''wrong''
       = (False, ''error: BadZipFile: File is not a zip file'')
     \<and> Report ''validation.zip'' FAIL ''error: BadZipFile: File is not a zip file''
       \<in> set (fst (check_main True damaged_src ''wrong''))"
    by simp
  from inst h1 h2 h3 h4
  have c1': "check_zip ''train.zip'' (sample_src ''train.zip'') ''wrong''
       = (False, case RuntimeError ''Bad password for file'' of
                   RuntimeError msg \<Rightarrow> ''decrypt/read failed: '' @ msg
                 | OtherException ty msg \<Rightarrow> ''error: '' @ ty @ '': '' @ msg)
     \<and> Report ''train.zip'' FAIL
         (case RuntimeError ''Bad password for file'' of
            RuntimeError msg \<Rightarrow> ''decrypt/read failed: '' @ msg
          | OtherException ty msg \<Rightarrow> ''error: '' @ ty @ '': '' @ msg)
       \<in> set (fst (check_main True sample_src ''wrong''))"
    by blast
  then have c1: "check_zip ''train.zip'' (sample_src ''train.zip'') ''wrong''
       = (False, ''decrypt/read failed: Bad password for file'')
     \<and> Report ''train.zip'' FAIL ''decrypt/read failed: Bad password for file''
       \<in> set (fst (check_main True sample_src ''wrong''))"
    by simp
  from inst h5 have c2: "Report ''test.zip'' FAIL (''missing: '' @ ''test.zip'')
       \<in> set (fst (check_main True sample_src ''wrong''))"
    by blast
  from inst h6 have c3: "Report ''json_for_validation.zip'' SKIP ''(not present)''
       \<in> set (fst (check_main True sample_src ''wrong''))"
    by blast
  from inst c1 f have n0: "snd (check_main True sample_src ''wrong'') \<noteq> 0"
    by blast
  have c4: "snd (check_main True sample_src ''wrong'') = 3"
    using n0 check_main_code [of sample_src "''wrong''"] by (simp split: if_splits)
  from inst h0' have c5: "\<exists>v msg. Report ''validation.zip'' v msg
         \<in> set (fst (check_main True sample_src ''wrong''))"
    by blast
  from inst have c6: "check_main False sample_src ''wrong'' = ([NotADirectory], 2)"
    by blast
  from h0 c0 h0' h1 h2 h3 h4 h5 h6 f c1 c2 c3 c4 c5 c6 show ?thesis
    by simp
qed

subsection \<open>Manifest Assembly\<close>

lemma sort_mset_eq:
  fixes xs ys :: "'a::linorder list"
  assumes "mset xs = mset ys"
  shows "sort xs = sort ys"
proof (rule properties_for_sort)
  show "mset (sort ys) = mset xs" using assms by simp
  show "sorted (sort ys)" by simp
qed

lemma glob_jpg_perm: "mset a = mset b \<Longrightarrow> glob_jpg a = glob_jpg b"
  unfolding glob_jpg_def by (rule sort_mset_eq) simp

lemma split_images_perm:
  assumes "map_option mset (a s) = map_option mset (b s)"
  shows "split_images a s = split_images b s"
proof (cases "a s")
  case None
  with assms have "b s = None" by simp
  with None show ?thesis by (simp add: split_images_def)
next
  case a: (Some xs)
  show ?thesis
  proof (cases "b s")
    case None
    with assms a show ?thesis by simp
  next
    case b: (Some ys)
    have "map_option mset (Some xs) = map_option mset (Some ys)"
      using assms unfolding a b .
    then have "mset xs = mset ys" by (simp only: option.map option.inject)
    then have "glob_jpg xs = glob_jpg ys" by (rule glob_jpg_perm)
    then show ?thesis by (simp only: split_images_def a b option.case)
  qed
qed

lemma iter_images_perm:
  assumes "\<forall>s. map_option mset (a s) = map_option mset (b s)"
  shows "iter_images a = iter_images b"
proof -
  have "split_images a s = split_images b s" for s
    using assms by (intro split_images_perm) simp
  then have "map (split_images a) ss = map (split_images b) ss" for ss
    by simp
  then show ?thesis
    unfolding iter_images_def by (rule arg_cong)
qed

lemma build_record_key:
  "(m_split (build_record r g img), m_image_id (build_record r g img))
     = (ir_split img, ir_image_id img)"
  by (simp add: build_record_def Let_def)

text \<open>
  Claim C3. The manifest records are in ascending order of the pair (split, image
  identifier). Two enumerations of the same image folders (for every split the same files,
  listed in any order) give the same list of records, for the same metadata rows.
\<close>

theorem manifest_sorted_and_reproducible:
  "(assemble_manifest dataset_root imgdir rows = Inr out \<longrightarrow>
      sorted (map (\<lambda>r. (m_split r, m_image_id r)) out))
   \<and> ((\<forall>s. map_option mset (dir_a s) = map_option mset (dir_b s)) \<longrightarrow>
      assemble_manifest root' dir_a rows' = assemble_manifest root' dir_b rows')"
proof (intro conjI impI)
  assume "assemble_manifest dataset_root imgdir rows = Inr out"
  then have out: "out = map (build_record dataset_root (group_rows rows))
      (sort_key (\<lambda>r. (ir_split r, ir_image_id r)) (iter_images imgdir))"
    by (simp add: assemble_manifest_def Let_def split: if_splits)
  have "map (\<lambda>r. (m_split r, m_image_id r)) out
      = map (\<lambda>r. (ir_split r, ir_image_id r))
          (sort_key (\<lambda>r. (ir_split r, ir_image_id r)) (iter_images imgdir))"
    by (simp add: out o_def build_record_key)
  then show "sorted (map (\<lambda>r. (m_split r, m_image_id r)) out)"
    by simp
next
  assume "\<forall>s. map_option mset (dir_a s) = map_option mset (dir_b s)"
  then have "iter_images dir_a = iter_images dir_b"
    by (rule iter_images_perm)
  then show "assemble_manifest root' dir_a rows' = assemble_manifest root' dir_b rows'"
    by (simp add: assemble_manifest_def)
qed

theorem manifest_sorted_and_reproducible_witness:
  "assemble_manifest ''/data'' listing_a [sample_row] = Inr sample_manifest
   \<and> sorted (map (\<lambda>r. (m_split r, m_image_id r)) sample_manifest)
   \<and> (\<forall>s. map_option mset (listing_a s) = map_option mset (listing_b s))
   \<and> listing_a ''train'' \<noteq> listing_b ''train''
   \<and> assemble_manifest ''/data'' listing_a [sample_row]
       = assemble_manifest ''/data'' listing_b [sample_row]"
proof -
  have i: "iter_images listing_a =
     [\<lparr>ir_outfit_uid = ''train:000007'', ir_image_id = ''000007'', ir_split = ''train'',
       ir_image_relpath = ''images/train/000007.jpg''\<rparr>,
      \<lparr>ir_outfit_uid = ''train:000152'', ir_image_id = ''000152'', ir_split = ''train'',
       ir_image_relpath = ''images/train/000152.jpg''\<rparr>,
      \<lparr>ir_outfit_uid = ''val:000152'', ir_image_id = ''000152'', ir_split = ''val'',
       ir_image_relpath = ''images/val/000152.jpg''\<rparr>]"
    by (simp add: iter_images_def split_images_def listing_a_def glob_jpg_def endswith_def
        path_stem_def rfind_dot_def less_eq_char_def less_char_def)
  have h1: "assemble_manifest ''/data'' listing_a [sample_row] = Inr sample_manifest"
    by (simp add: assemble_manifest_def i sample_manifest_def build_record_def group_rows_def
        group_step_def row_get_def sample_row_def add_user_def add_item_def add_field_def
        Let_def less_eq_char_def less_char_def)
  have h2: "\<forall>s. map_option mset (listing_a s) = map_option mset (listing_b s)"
    by (simp add: listing_a_def listing_b_def)
  have d: "listing_a ''train'' \<noteq> listing_b ''train''"
    by (simp add: listing_a_def listing_b_def)
  note inst = manifest_sorted_and_reproducible
    [of "''/data''" listing_a "[sample_row]" sample_manifest listing_a listing_b
        "''/data''" "[sample_row]"]
  from inst h1 have c1: "sorted (map (\<lambda>r. (m_split r, m_image_id r)) sample_manifest)"
    by blast
  from inst h2 have c2: "assemble_manifest ''/data'' listing_a [sample_row]
       = assemble_manifest ''/data'' listing_b [sample_row]"
    by blast
  from h1 c1 h2 d c2 show ?thesis
    by blast
qed


subsection \<open>Item identifiers, image index and join\<close>

lemma split_at_last:
  assumes "a @ c # b = a' @ c # b'" and "c \<notin> set b" and "c \<notin> set b'"
  shows "a = a' \<and> b = b'"
proof -
  have "rev (a @ c # b) = rev (a' @ c # b')"
    using assms(1) by simp
  then have e: "rev b @ c # rev a = rev b' @ c # rev a'"
    by simp
  have "takeWhile (\<lambda>x. x \<noteq> c) (rev b @ c # rev a) = rev b"
    using assms(2) by (auto simp: takeWhile_tail)
  moreover have "takeWhile (\<lambda>x. x \<noteq> c) (rev b' @ c # rev a') = rev b'"
    using assms(3) by (auto simp: takeWhile_tail)
  ultimately have "rev b = rev b'"
    using e by simp
  then have "b = b'" by simp
  with assms(1) show ?thesis by simp
qed

lemma split_at_first:
  assumes "a @ c # b = a' @ c # b'" and "c \<notin> set a" and "c \<notin> set a'"
  shows "a = a' \<and> b = b'"
proof -
  have "takeWhile (\<lambda>x. x \<noteq> c) (a @ c # b) = a"
    using assms(2) by (auto simp: takeWhile_tail)
  moreover have "takeWhile (\<lambda>x. x \<noteq> c) (a' @ c # b') = a'"
    using assms(3) by (auto simp: takeWhile_tail)
  ultimately have "a = a'"
    using assms(1) by simp
  with assms(1) show ?thesis by simp
qed

lemma item_uid_inj_index:
  assumes "item_uid s1 i1 = item_uid s2 i2"
    and "CHR ''_'' \<notin> set i1" and "CHR ''_'' \<notin> set i2"
  shows "s1 = s2 \<and> i1 = i2"
proof -
  from assms(1) have "s1 @ CHR ''_'' # i1 = s2 @ CHR ''_'' # i2"
    by (simp add: item_uid_def)
  from split_at_last [OF this assms(2) assms(3)] show ?thesis .
qed

lemma item_uid_inj_set:
  assumes "item_uid s1 i1 = item_uid s2 i2"
    and "CHR ''_'' \<notin> set s1" and "CHR ''_'' \<notin> set s2"
  shows "s1 = s2 \<and> i1 = i2"
proof -
  from assms(1) have "s1 @ CHR ''_'' # i1 = s2 @ CHR ''_'' # i2"
    by (simp add: item_uid_def)
  from split_at_first [OF this assms(2) assms(3)] show ?thesis .
qed

lemma load_item_map_snoc:
  "load_item_map (es @ [e]) = load_step (load_item_map es) e"
  by (simp add: load_item_map_def)

lemma load_item_map_nonempty:
  "load_item_map es u = Some rel \<Longrightarrow> rel \<noteq> []"
proof (induction es arbitrary: rel rule: rev_induct)
  case Nil
  then show ?case by (simp add: load_item_map_def)
next
  case (snoc e es)
  then show ?case
    by (auto simp: load_item_map_snoc load_step_def split: if_splits)
qed

lemma load_item_map_present:
  assumes "e \<in> set es" and "ie_item_uid e \<noteq> []" and "ie_image_relpath e \<noteq> []"
  shows "load_item_map es (ie_item_uid e) \<noteq> None"
  using assms
proof (induction es rule: rev_induct)
  case Nil
  then show ?case by simp
next
  case (snoc x es)
  then show ?case
    by (auto simp: load_item_map_snoc load_step_def)
qed

lemma build_index_entry:
  assumes "e \<in> set (build_index relbase base)"
  shows "\<exists>set_id names jpg. (set_id, SetDir names) \<in> set base \<and> jpg \<in> set names \<and>
           endswith jpg ''.jpg'' \<and> e = index_entry_of relbase set_id jpg"
proof -
  have dirs: "(s, ns) \<in> set (set_dirs_of b) \<Longrightarrow> (s, SetDir ns) \<in> set b" for s ns b
    by (induction b rule: set_dirs_of.induct) auto
  from assms obtain set_id names jpg where "(set_id, names) \<in> set (set_dirs base)"
    and "jpg \<in> set (glob_jpg names)" and "e = index_entry_of relbase set_id jpg"
    by (auto simp: build_index_def)
  then have "(set_id, SetDir names) \<in> set base \<and> jpg \<in> set names \<and>
      endswith jpg ''.jpg'' \<and> e = index_entry_of relbase set_id jpg"
    using dirs [of set_id names base] by (simp add: set_dirs_def glob_jpg_def)
  then show ?thesis by blast
qed

lemma build_index_fields:
  assumes "e \<in> set (build_index relbase base)"
  shows "ie_item_uid e \<noteq> [] \<and> ie_image_relpath e \<noteq> []"
  using build_index_entry [OF assms]
  by (auto simp: index_entry_of_def item_uid_def)

lemma indexed_uid_resolves:
  assumes "u \<in> ie_item_uid ` set (build_index relbase base)"
  shows "\<exists>rel. load_item_map (build_index relbase base) u = Some rel \<and> rel \<noteq> []"
proof -
  from assms obtain e where e: "e \<in> set (build_index relbase base)" and u: "u = ie_item_uid e"
    by blast
  from build_index_fields [OF e] load_item_map_present [OF e]
  have "load_item_map (build_index relbase base) u \<noteq> None"
    by (simp add: u)
  then obtain rel where "load_item_map (build_index relbase base) u = Some rel"
    by blast
  with load_item_map_nonempty [OF this] show ?thesis by blast
qed

text \<open>The counters after the items of one outfit, when every identifier is in the map.\<close>

lemma join_items_all_resolved:
  assumes "\<forall>it\<in>set its. \<exists>rel. mapping (ref_item_uid it) = Some rel \<and> rel \<noteq> []"
  shows "\<exists>done'. foldl (join_item mapping abspath) (done, c) its =
           (done', c\<lparr>total_items := total_items c + length its,
                    resolved := resolved c + length its\<rparr>)"
  using assms
proof (induction its arbitrary: "done" c)
  case Nil
  then show ?case by simp
next
  case (Cons it its)
  from Cons.prems obtain rel where rel: "mapping (ref_item_uid it) = Some rel" "rel \<noteq> []"
    by auto
  let ?c1 = "c\<lparr>total_items := total_items c + 1, resolved := resolved c + 1\<rparr>"
  have step: "join_item mapping abspath (done, c) it =
      (done @ [extend_ref it (Some rel) (Some (abspath rel))], ?c1)"
    by (simp add: join_item_def Let_def rel)
  have rest: "\<forall>it\<in>set its. \<exists>rel. mapping (ref_item_uid it) = Some rel \<and> rel \<noteq> []"
    using Cons.prems by simp
  from Cons.IH [of "done @ [extend_ref it (Some rel) (Some (abspath rel))]" ?c1, OF rest]
  obtain done' where "foldl (join_item mapping abspath)
      (done @ [extend_ref it (Some rel) (Some (abspath rel))], ?c1) its =
      (done', ?c1\<lparr>total_items := total_items ?c1 + length its,
                  resolved := resolved ?c1 + length its\<rparr>)"
    by blast
  then show ?case
    by (simp add: step)
qed

lemma join_outfits_all_resolved:
  assumes "\<forall>outfit\<in>set outfits. \<forall>it\<in>set (o_items outfit).
             \<exists>rel. mapping (ref_item_uid it) = Some rel \<and> rel \<noteq> []"
    and "resolved c = total_items c"
  shows "\<exists>written' c'. foldl (join_outfit mapping abspath) (written, c) outfits = (written', c')
           \<and> resolved c' = total_items c'
           \<and> total_items c' = total_items c + sum_list (map (\<lambda>outfit. length (o_items outfit)) outfits)"
  using assms
proof (induction outfits arbitrary: written c)
  case Nil
  then show ?case by simp
next
  case (Cons outfit outfits)
  have "\<forall>it\<in>set (o_items outfit). \<exists>rel. mapping (ref_item_uid it) = Some rel \<and> rel \<noteq> []"
    using Cons.prems(1) by simp
  from join_items_all_resolved [of "o_items outfit" mapping abspath "[]" c, OF this]
  obtain its where its: "foldl (join_item mapping abspath) ([], c) (o_items outfit) =
      (its, c\<lparr>total_items := total_items c + length (o_items outfit),
               resolved := resolved c + length (o_items outfit)\<rparr>)"
    by blast
  let ?c1 = "c\<lparr>total_items := total_items c + length (o_items outfit),
               resolved := resolved c + length (o_items outfit),
               total_outfits := total_outfits c + 1\<rparr>"
  have step: "join_outfit mapping abspath (written, c) outfit = (written @ [(outfit, its)], ?c1)"
    by (simp add: join_outfit_def its)
  have r: "resolved ?c1 = total_items ?c1"
    using Cons.prems(2) by simp
  have rest: "\<forall>outfit\<in>set outfits. \<forall>it\<in>set (o_items outfit).
      \<exists>rel. mapping (ref_item_uid it) = Some rel \<and> rel \<noteq> []"
    using Cons.prems(1) by simp
  from Cons.IH [of ?c1 "written @ [(outfit, its)]", OF rest r]
  obtain written' c' where "foldl (join_outfit mapping abspath) (written @ [(outfit, its)], ?c1) outfits
        = (written', c')" and "resolved c' = total_items c'"
    and "total_items c' = total_items ?c1 + sum_list (map (\<lambda>outfit. length (o_items outfit)) outfits)"
    by blast
  then show ?case
    by (simp add: step)
qed

text \<open>
  Claim C1, as the code has it. Two different pairs are composed to the same identifier
  when the underscore can be read at two places; and a run without any item reference
  reports 0 percent, not 100.
\<close>

theorem item_uid_collision:
  "item_uid ''1_2'' ''3'' = item_uid ''1'' ''2_3''
   \<and> (''1_2'', ''3'') \<noteq> (''1'', ''2_3'')
   \<and> augment_main True (build_index ''images/'' sample_base) sample_abspath []
       = Inr ([], \<lparr>total_outfits = 0, total_items = 0, resolved = 0\<rparr>, 0)"
  by (simp add: item_uid_def augment_main_def pct_def)

text \<open>
  Claim C1, amended. The composition of identifiers is injective on the pairs whose index
  holds no underscore (numbered image files), and on the pairs whose collection identifier
  holds none. When every identifier the outfits refer to is in the index the indexing run
  built, the join resolves every reference: the counter of resolved references equals the
  counter of references, and the percentage reported is 100 when there is at least one
  reference, and 0 when there is none.
\<close>

theorem item_uid_injective_and_full_resolution:
  "((CHR ''_'' \<notin> set i1 \<and> CHR ''_'' \<notin> set i2) \<or> (CHR ''_'' \<notin> set s1 \<and> CHR ''_'' \<notin> set s2) \<longrightarrow>
      (item_uid s1 i1 = item_uid s2 i2 \<longleftrightarrow> s1 = s2 \<and> i1 = i2))
   \<and> ((\<forall>outfit\<in>set outfits. \<forall>it\<in>set (o_items outfit).
         ref_item_uid it \<in> ie_item_uid ` set (build_index relbase base)) \<longrightarrow>
      (\<exists>written c.
         augment_main True (build_index relbase base) abspath outfits = Inr (written, c, pct c) \<and>
         resolved c = total_items c \<and>
         total_items c = sum_list (map (\<lambda>outfit. length (o_items outfit)) outfits) \<and>
         pct c = (if total_items c = 0 then 0 else 100)))"
proof (intro conjI impI)
  assume "(CHR ''_'' \<notin> set i1 \<and> CHR ''_'' \<notin> set i2) \<or> (CHR ''_'' \<notin> set s1 \<and> CHR ''_'' \<notin> set s2)"
  then show "item_uid s1 i1 = item_uid s2 i2 \<longleftrightarrow> s1 = s2 \<and> i1 = i2"
    using item_uid_inj_index [of s1 i1 s2 i2] item_uid_inj_set [of s1 i1 s2 i2] by blast
next
  let ?m = "load_item_map (build_index relbase base)"
  let ?c0 = "\<lparr>total_outfits = 0, total_items = 0, resolved = 0\<rparr>"
  assume h: "\<forall>outfit\<in>set outfits. \<forall>it\<in>set (o_items outfit).
         ref_item_uid it \<in> ie_item_uid ` set (build_index relbase base)"
  have all: "\<forall>outfit\<in>set outfits. \<forall>it\<in>set (o_items outfit).
      \<exists>rel. ?m (ref_item_uid it) = Some rel \<and> rel \<noteq> []"
    using h indexed_uid_resolves by blast
  have "resolved ?c0 = total_items ?c0"
    by simp
  from join_outfits_all_resolved [of outfits ?m ?c0 abspath "[]", OF all this]
  obtain written c where f: "foldl (join_outfit ?m abspath) ([], ?c0) outfits = (written, c)"
    and r: "resolved c = total_items c"
    and t: "total_items c = sum_list (map (\<lambda>outfit. length (o_items outfit)) outfits)"
    by auto
  have a: "augment_main True (build_index relbase base) abspath outfits = Inr (written, c, pct c)"
    by (simp add: augment_main_def f)
  have p: "pct c = (if total_items c = 0 then 0 else 100)"
    by (simp add: pct_def r)
  from a r t p show "\<exists>written c.
         augment_main True (build_index relbase base) abspath outfits = Inr (written, c, pct c) \<and>
         resolved c = total_items c \<and>
         total_items c = sum_list (map (\<lambda>outfit. length (o_items outfit)) outfits) \<and>
         pct c = (if total_items c = 0 then 0 else 100)"
    by blast
qed

theorem item_uid_injective_and_full_resolution_witness:
  "CHR ''_'' \<notin> set ''0'' \<and> CHR ''_'' \<notin> set ''1''
   \<and> item_uid ''123'' ''0'' \<noteq> item_uid ''123'' ''1''
   \<and> build_index ''images/'' sample_base = [index_entry_of ''images/'' ''123'' ''0.jpg'']
   \<and> ref_item_uid (ref_to ''123'' ''0'')
       \<in> ie_item_uid ` set (build_index ''images/'' sample_base)
   \<and> augment_main True (build_index ''images/'' sample_base) sample_abspath sample_outfits
       = Inr ([(outfit_with ''123'' [ref_to ''123'' ''0''], [sample_joined]),
               (outfit_with ''777'' [ref_to ''123'' ''0''], [sample_joined])],
              \<lparr>total_outfits = 2, total_items = 2, resolved = 2\<rparr>, 100)"
proof -
  have h1: "CHR ''_'' \<notin> set ''0'' \<and> CHR ''_'' \<notin> set ''1''"
    by simp
  have b: "build_index ''images/'' sample_base = [index_entry_of ''images/'' ''123'' ''0.jpg'']"
    by (simp add: build_index_def sample_base_def set_dirs_def glob_jpg_def endswith_def)
  have h2: "\<forall>outfit\<in>set sample_outfits. \<forall>it\<in>set (o_items outfit).
         ref_item_uid it \<in> ie_item_uid ` set (build_index ''images/'' sample_base)"
    by (simp add: b sample_outfits_def outfit_with_def ref_to_def index_entry_of_def
        path_stem_def rfind_dot_def)
  note inst = item_uid_injective_and_full_resolution
    [of "''0''" "''1''" "''123''" "''123''" sample_outfits "''images/''" sample_base
        sample_abspath]
  from inst h1 have c1: "item_uid ''123'' ''0'' \<noteq> item_uid ''123'' ''1''"
    by simp
  from inst h2 obtain written c where
    a: "augment_main True (build_index ''images/'' sample_base) sample_abspath sample_outfits
          = Inr (written, c, pct c)"
    and p: "pct c = (if total_items c = 0 then 0 else 100)"
    and t: "total_items c = sum_list (map (\<lambda>outfit. length (o_items outfit)) sample_outfits)"
    by blast
  have e: "augment_main True (build_index ''images/'' sample_base) sample_abspath sample_outfits
       = Inr ([(outfit_with ''123'' [ref_to ''123'' ''0''], [sample_joined]),
               (outfit_with ''777'' [ref_to ''123'' ''0''], [sample_joined])],
              \<lparr>total_outfits = 2, total_items = 2, resolved = 2\<rparr>,
              pct \<lparr>total_outfits = 2, total_items = 2, resolved = 2\<rparr>)"
    by (simp add: augment_main_def b load_item_map_def load_step_def index_entry_of_def
        sample_outfits_def outfit_with_def ref_to_def join_outfit_def join_item_def
        sample_joined_def sample_abspath_def item_uid_def path_stem_def rfind_dot_def Let_def
        numeral_2_eq_2)
  from a e have "c = \<lparr>total_outfits = 2, total_items = 2, resolved = 2\<rparr>"
    by simp
  with p have "pct \<lparr>total_outfits = 2, total_items = 2, resolved = 2\<rparr> = 100"
    by simp
  with e have e': "augment_main True (build_index ''images/'' sample_base) sample_abspath
      sample_outfits
       = Inr ([(outfit_with ''123'' [ref_to ''123'' ''0''], [sample_joined]),
               (outfit_with ''777'' [ref_to ''123'' ''0''], [sample_joined])],
              \<lparr>total_outfits = 2, total_items = 2, resolved = 2\<rparr>, 100)"
    by simp
  have m: "ref_item_uid (ref_to ''123'' ''0'')
       \<in> ie_item_uid ` set (build_index ''images/'' sample_base)"
    by (simp add: b ref_to_def index_entry_of_def path_stem_def rfind_dot_def)
  from h1 c1 b m e' show ?thesis
    by blast
qed













subsection \<open>Tabular Repair\<close>

lemmas repair_eval =
  repair_text_def header_fine_def first_line_def replace_def splitlines.simps ascii_def
  USER_ID_def IMAGE_ID_def RATING_def OCCASION_def RATI_def RATI_NG_def is_linebreak_def
  Let_def

lemma py_in_iff: "py_in sub s \<longleftrightarrow> (\<exists>a b. s = a @ sub @ b)"
proof (induction s)
  case Nil
  show ?case by auto
next
  case (Cons c cs)
  show ?case
  proof
    assume "py_in sub (c # cs)"
    then consider "prefix sub (c # cs)" | "py_in sub cs" by auto
    then show "\<exists>a b. c # cs = a @ sub @ b"
    proof cases
      case 1
      then obtain b where "c # cs = sub @ b" by (auto simp: prefix_def)
      then have "c # cs = [] @ sub @ b" by simp
      then show ?thesis by blast
    next
      case 2
      with Cons obtain a b where "cs = a @ sub @ b" by blast
      then have "c # cs = (c # a) @ sub @ b" by simp
      then show ?thesis by blast
    qed
  next
    assume "\<exists>a b. c # cs = a @ sub @ b"
    then obtain a b where e: "c # cs = a @ sub @ b" by blast
    show "py_in sub (c # cs)"
    proof (cases a)
      case Nil
      with e have "prefix sub (c # cs)" by (simp add: prefix_def)
      then show ?thesis by simp
    next
      case (Cons x a')
      with e have "cs = a' @ sub @ b" by simp
      with Cons.IH have "py_in sub cs" by blast
      then show ?thesis by simp
    qed
  qed
qed

lemma py_in_extend: "py_in m h \<Longrightarrow> py_in m (x @ h @ y)"
proof -
  assume "py_in m h"
  then obtain a b where "h = a @ m @ b" by (auto simp: py_in_iff)
  then have "x @ h @ y = (x @ a) @ m @ (b @ y)" by simp
  then show ?thesis unfolding py_in_iff by blast
qed

lemma py_in_filter:
  assumes "py_in m s" and "\<forall>c\<in>set m. P c"
  shows "py_in m (filter P s)"
proof -
  from assms(1) obtain a b where "s = a @ m @ b" by (auto simp: py_in_iff)
  then have "filter P s = filter P a @ m @ filter P b"
    using assms(2) by simp
  then show ?thesis unfolding py_in_iff by blast
qed

lemma replace_from_absent: "\<not> py_in old s \<Longrightarrow> replace_from old new s = s"
  by (induction s) auto

lemma replace_absent: "old \<noteq> [] \<Longrightarrow> \<not> py_in old s \<Longrightarrow> replace old new s = s"
  by (simp add: replace_def replace_from_absent)

lemma replace_single: "replace [c] [] s = filter (\<lambda>x. x \<noteq> c) s"
  by (induction s) (auto simp: replace_def)

lemma take_line_append:
  assumes "\<forall>c\<in>set h. \<not> is_linebreak c"
  shows "take_line (h @ t) = (h @ fst (take_line t), snd (take_line t))"
  using assms
proof (induction h)
  case Nil
  show ?case by simp
next
  case (Cons c h)
  then have "c \<noteq> 13" by (auto simp: is_linebreak_def)
  with Cons show ?case by (simp add: split_beta)
qed

lemma splitlines_Nil: "splitlines [] = []"
  by (simp add: splitlines.simps)

lemma splitlines_nonempty:
  "s \<noteq> [] \<Longrightarrow> splitlines s = fst (take_line s) # splitlines (snd (take_line s))"
  by (subst splitlines.simps) (simp add: split_beta)

lemma splitlines_empty_iff: "splitlines s = [] \<longleftrightarrow> s = []"
  by (cases "s = []") (simp_all add: splitlines_Nil splitlines_nonempty)

lemma RATI_NG_eq: "RATI_NG = [114, 97, 116, 105, 10, 110, 103]"
  by (simp add: RATI_NG_def ascii_def)

lemma RATING_eq: "RATING = [114, 97, 116, 105, 110, 103]"
  by (simp add: RATING_def ascii_def)

lemma RATI_eq: "RATI = [114, 97, 116, 105]"
  by (simp add: RATI_def ascii_def)

lemma prefix_nth: "prefix xs ys \<Longrightarrow> i < length xs \<Longrightarrow> ys ! i = xs ! i"
  by (auto simp: prefix_def nth_append)

lemma RATI_NG_not_inside:
  assumes "10 \<notin> set a" and "a \<noteq> []"
  shows "\<not> prefix RATI_NG (a @ RATI_NG @ tail)"
proof
  assume "prefix RATI_NG (a @ RATI_NG @ tail)"
  from prefix_nth [OF this, of 4] have e: "(a @ RATI_NG @ tail) ! 4 = 10"
    by (simp add: RATI_NG_eq)
  show False
  proof (cases "4 < length a")
    case True
    then have "(a @ RATI_NG @ tail) ! 4 = a ! 4" by (simp add: nth_append)
    with e True assms(1) show False by (metis nth_mem)
  next
    case False
    moreover have "0 < length a"
      using assms(2) by simp
    ultimately have "length a = 1 \<or> length a = 2 \<or> length a = 3 \<or> length a = 4"
      by arith
    then show False
      using e by (auto simp: nth_append RATI_NG_eq)
  qed
qed

lemma replace_from_split:
  assumes "10 \<notin> set a"
  shows "replace_from RATI_NG new (a @ RATI_NG @ tail) = a @ new @ replace_from RATI_NG new tail"
  using assms
proof (induction a)
  case Nil
  show ?case by (simp add: RATI_NG_eq)
next
  case (Cons c a)
  have "\<not> prefix RATI_NG ((c # a) @ RATI_NG @ tail)"
    by (rule RATI_NG_not_inside) (use Cons.prems in auto)
  then have "replace_from RATI_NG new ((c # a) @ RATI_NG @ tail)
      = c # replace_from RATI_NG new (a @ RATI_NG @ tail)"
    by simp
  with Cons show ?case by simp
qed

lemma prefix_RATI_NG_short:
  assumes "prefix RATI_NG (b @ rest)" and "10 \<notin> set b"
  shows "prefix b RATI"
proof -
  have len: "length b \<le> 4"
  proof (rule ccontr)
    assume "\<not> length b \<le> 4"
    then have l: "4 < length b" by simp
    from prefix_nth [OF assms(1), of 4] have "(b @ rest) ! 4 = 10"
      by (simp add: RATI_NG_eq)
    with l have "b ! 4 = 10" by (simp add: nth_append)
    with l assms(2) show False by (metis nth_mem)
  qed
  from assms(1) obtain z where z: "b @ rest = RATI_NG @ z"
    by (auto simp: prefix_def)
  have "b = take (length b) (b @ rest)" by simp
  also have "\<dots> = take (length b) (RATI_NG @ z)" by (simp only: z)
  also have "\<dots> = take (length b) (take 4 (RATI_NG @ z))"
    using len by (simp only: take_take min_absorb1)
  also have "\<dots> = take (length b) RATI"
    by (simp add: RATI_NG_eq RATI_eq)
  finally have "b = take (length b) RATI" .
  then show ?thesis by (metis take_is_prefix)
qed

lemma replace_from_keeps_prefix:
  assumes "10 \<notin> set b"
  shows "prefix b (replace_from RATI_NG RATING (b @ rest))"
  using assms
proof (induction b)
  case Nil
  show ?case by simp
next
  case (Cons c b)
  show ?case
  proof (cases "prefix RATI_NG ((c # b) @ rest)")
    case True
    from prefix_RATI_NG_short [OF True] Cons.prems have "prefix (c # b) RATI"
      by simp
    then have "prefix (c # b) (RATI @ [110, 103] @ replace_from RATI_NG RATING
        (drop (length RATI_NG - 1) (b @ rest)))"
      by (rule prefix_prefix)
    then have "prefix (c # b) (RATING @ replace_from RATI_NG RATING
        (drop (length RATI_NG - 1) (b @ rest)))"
      by (simp add: RATI_eq RATING_eq)
    with True show ?thesis by simp
  next
    case False
    with Cons show ?thesis by simp
  qed
qed

lemma py_in_set: "py_in sub s \<Longrightarrow> set sub \<subseteq> set s"
  by (auto simp: py_in_iff)

lemma RATI_NG_nonempty: "RATI_NG \<noteq> []"
  by (simp add: RATI_NG_eq)

lemma USER_ID_nonempty: "USER_ID \<noteq> []"
  by (simp add: USER_ID_def ascii_def)

lemma strip_breaks:
  "replace [10] [] (replace [13] [] s) = filter (\<lambda>x. x \<noteq> 10) (filter (\<lambda>x. x \<noteq> 13) s)"
  by (simp only: replace_single)

lemma split_header_first_line:
  assumes nb: "\<forall>c\<in>set (a @ b). \<not> is_linebreak c"
    and m1: "py_in USER_ID (a @ RATING @ b)" and m2: "py_in IMAGE_ID (a @ RATING @ b)"
    and m3: "py_in OCCASION (a @ RATING @ b)"
    and nf: "\<not> (py_in RATING (a @ RATI) \<and> py_in OCCASION (a @ RATI))"
  shows "\<exists>l. first_line (repair_text (a @ RATI_NG @ b @ rest)) = (a @ RATING @ b) @ l"
proof -
  let ?hdr = "a @ RATING @ b"
  let ?text = "a @ RATI_NG @ b @ rest"
  have lb: "is_linebreak 10" "is_linebreak 13"
    by (simp_all add: is_linebreak_def)
  have na: "10 \<notin> set a" "10 \<notin> set b"
    using nb lb by auto
  have nh: "\<forall>c\<in>set ?hdr. \<not> is_linebreak c"
    using nb by (auto simp: RATING_eq is_linebreak_def)
  then have nh10: "\<forall>c\<in>set ?hdr. c \<noteq> 10" and nh13: "\<forall>c\<in>set ?hdr. c \<noteq> 13"
    using lb by blast+
  have "first_line ?text = a @ takeWhile (\<lambda>c. c \<noteq> 10) (RATI_NG @ b @ rest)"
    unfolding first_line_def using na(1) by (intro takeWhile_append2) auto
  then have fl: "first_line ?text = a @ RATI"
    by (simp add: RATI_NG_eq RATI_eq)
  have not_fine: "\<not> header_fine ?text"
    using nf by (simp add: header_fine_def fl Let_def)
  obtain T where T: "replace_from RATI_NG RATING (b @ rest) = b @ T"
    using replace_from_keeps_prefix [OF na(2), of rest] by (auto simp: prefix_def)
  have text1: "replace RATI_NG RATING ?text = ?hdr @ T"
    by (simp add: replace_def RATI_NG_nonempty replace_from_split [OF na(1)] T)
  have ne: "?hdr @ T \<noteq> []"
    by (simp add: RATING_eq)
  obtain l' r' where tl: "take_line T = (l', r')"
    by (cases "take_line T")
  have "take_line (?hdr @ T) = (?hdr @ l', r')"
    using take_line_append [OF nh, of T] by (simp add: tl)
  with splitlines_nonempty [OF ne]
  have lines: "splitlines (?hdr @ T) = (?hdr @ l') # splitlines r'"
    by simp
  have "RATING = [] @ RATING @ []"
    by simp
  then have self: "py_in RATING RATING"
    unfolding py_in_iff by blast
  have cand: "py_in USER_ID (?hdr @ l')" "py_in IMAGE_ID (?hdr @ l')"
    "py_in RATING (?hdr @ l')" "py_in OCCASION (?hdr @ l')"
    using py_in_extend [OF m1, of "[]" l'] py_in_extend [OF m2, of "[]" l']
      py_in_extend [OF m3, of "[]" l'] py_in_extend [OF self, of a "b @ l'"]
    by simp_all
  let ?S = "filter (\<lambda>x. x \<noteq> 10) (filter (\<lambda>x. x \<noteq> 13) l')"
  have strip: "replace [10] [] (replace [13] [] (?hdr @ l')) = ?hdr @ ?S"
    unfolding strip_breaks using nh10 nh13 by (simp add: filter_id_conv)
  have scan: "scan_header [] ((?hdr @ l') # splitlines r')
      = Some ((?hdr @ ?S) @ [10] @ concat (splitlines r'))"
    using cand strip by (simp add: Let_def del: append_assoc)
  have "repair_text ?text =
      (case scan_header [] (splitlines (?hdr @ T)) of Some r \<Rightarrow> r | None \<Rightarrow> ?hdr @ T)"
    using not_fine
    by (simp only: repair_text_def text1 Let_def lines if_False list.distinct)
  also have "\<dots> = (?hdr @ ?S) @ [10] @ concat (splitlines r')"
    by (simp only: lines scan option.case)
  finally have out: "repair_text ?text = (?hdr @ ?S) @ 10 # concat (splitlines r')"
    by simp
  have "first_line ((?hdr @ ?S) @ 10 # concat (splitlines r')) = ?hdr @ ?S"
    unfolding first_line_def using nh10
    by (subst takeWhile_tail) (auto simp: takeWhile_eq_all_conv)
  with out have "first_line (repair_text ?text) = ?hdr @ ?S"
    by simp
  then show ?thesis by blast
qed

lemma intact_header_unchanged:
  assumes "10 \<in> set text" and "py_in RATING (first_line text)"
    and "py_in OCCASION (first_line text)"
  shows "repair_text text = text"
  using assms by (simp add: repair_text_def header_fine_def)

lemma single_line_gets_newline:
  assumes nb: "\<forall>c\<in>set text. \<not> is_linebreak c"
    and m: "py_in USER_ID text" "py_in IMAGE_ID text" "py_in RATING text" "py_in OCCASION text"
  shows "repair_text text = text @ [10]"
proof -
  have lb: "is_linebreak 10" "is_linebreak 13"
    by (simp_all add: is_linebreak_def)
  have n10: "10 \<notin> set text" and n13: "13 \<notin> set text"
    using nb lb by blast+
  have not_fine: "\<not> header_fine text"
    using n10 by (simp add: header_fine_def)
  have "\<not> py_in RATI_NG text"
    using py_in_set [of RATI_NG "text"] n10 by (auto simp: RATI_NG_eq)
  then have text1: "replace RATI_NG RATING text = text"
    by (simp add: replace_absent RATI_NG_nonempty)
  have ne: "text \<noteq> []"
    using m(1) USER_ID_nonempty by (cases "text") auto
  have "take_line (text @ []) = (text @ fst (take_line []), snd (take_line []))"
    using nb by (rule take_line_append)
  then have "take_line text = (text, [])"
    by simp
  with splitlines_nonempty [OF ne] have lines: "splitlines text = [text]"
    by (simp add: splitlines_Nil)
  have strip: "replace [10] [] (replace [13] [] text) = text"
    unfolding strip_breaks using n10 n13 by (auto simp: filter_id_conv)
  have "scan_header [] [text] = Some (text @ [10])"
    using m strip by (simp add: Let_def)
  with not_fine show ?thesis
    by (simp add: repair_text_def text1 lines Let_def)
qed

lemma fallback_result:
  assumes "\<not> header_fine text"
    and "scan_header [] (splitlines (replace RATI_NG RATING text)) = None"
  shows "repair_text text = replace RATI_NG RATING text"
proof (cases "splitlines (replace RATI_NG RATING text) = []")
  case True
  then have "replace RATI_NG RATING text = []"
    by (simp add: splitlines_empty_iff)
  with assms(1) True show ?thesis
    by (simp add: repair_text_def Let_def)
next
  case False
  with assms show ?thesis
    by (simp add: repair_text_def Let_def)
qed

lemma replace_from_length_le:
  "length new \<le> length old \<Longrightarrow> length (replace_from old new s) \<le> length s"
proof (induction old new s rule: replace_from.induct)
  case (1 old new)
  then show ?case by simp
next
  case (2 old new c cs)
  show ?case
  proof (cases "prefix old (c # cs)")
    case True
    then have l: "length old \<le> Suc (length cs)"
      by (auto dest: prefix_length_le)
    from 2 True have "length (replace_from old new (drop (length old - 1) cs))
        \<le> length cs - (length old - 1)"
      by simp
    with True l "2.prems" show ?thesis by simp
  next
    case False
    with 2 show ?thesis by simp
  qed
qed

lemma replace_from_shorter:
  "length new < length old \<Longrightarrow> py_in old s \<Longrightarrow>
   length (replace_from old new s) < length s"
proof (induction old new s rule: replace_from.induct)
  case (1 old new)
  then show ?case by simp
next
  case (2 old new c cs)
  show ?case
  proof (cases "prefix old (c # cs)")
    case True
    then have l: "length old \<le> Suc (length cs)"
      by (auto dest: prefix_length_le)
    from "2.prems"(1) have "length (replace_from old new (drop (length old - 1) cs))
        \<le> length cs - (length old - 1)"
      using replace_from_length_le [of new old "drop (length old - 1) cs"] by simp
    with True l "2.prems"(1) show ?thesis by simp
  next
    case False
    with "2.prems"(2) have "py_in old cs" by simp
    with 2 False show ?thesis by simp
  qed
qed

lemma replace_RATI_NG_shorter:
  "py_in RATI_NG s \<Longrightarrow> length (replace RATI_NG RATING s) < length s"
  using replace_from_shorter [of RATING RATI_NG s]
  by (simp add: replace_def RATI_NG_eq RATING_eq)

text \<open>
  Claim C5, as the code has it. The fallback returns the text after the literal
  replacement of the split fragment, not the decoded input: for the input
  \<open>rati\nng\n\<close> the scan finds no candidate and the result is \<open>rating\n\<close>.
\<close>

theorem fallback_returns_replaced_text:
  "repair_purchase_history_csv ascii (''rati'' @ [CHR 0x0A] @ ''ng'' @ [CHR 0x0A])
     = ascii ''rating'' @ [10]
   \<and> ascii (''rati'' @ [CHR 0x0A] @ ''ng'' @ [CHR 0x0A]) \<noteq> ascii ''rating'' @ [10]
   \<and> \<not> header_fine (ascii (''rati'' @ [CHR 0x0A] @ ''ng'' @ [CHR 0x0A]))
   \<and> scan_header []
        (splitlines (replace RATI_NG RATING (ascii (''rati'' @ [CHR 0x0A] @ ''ng'' @ [CHR 0x0A]))))
       = None"
  by (simp add: repair_purchase_history_csv_def repair_eval)

text \<open>
  Claim C5, amended. When the header is not accepted as it is and the scan of at most
  five lines finds no candidate with the four markers, the function returns the decoded
  text after the replacement of every \<open>rati\nng\<close> by \<open>rating\<close>; this is the decoded
  input itself exactly when the input holds no such fragment.
\<close>

theorem fallback_returns_text_after_replace:
  "\<not> header_fine (decode raw) \<and>
   scan_header [] (splitlines (replace RATI_NG RATING (decode raw))) = None \<longrightarrow>
     repair_purchase_history_csv decode raw = replace RATI_NG RATING (decode raw) \<and>
     (repair_purchase_history_csv decode raw = decode raw \<longleftrightarrow>
        \<not> py_in RATI_NG (decode raw))"
proof (intro impI conjI)
  assume h: "\<not> header_fine (decode raw) \<and>
    scan_header [] (splitlines (replace RATI_NG RATING (decode raw))) = None"
  then show r: "repair_purchase_history_csv decode raw = replace RATI_NG RATING (decode raw)"
    by (simp add: repair_purchase_history_csv_def fallback_result)
  show "repair_purchase_history_csv decode raw = decode raw \<longleftrightarrow>
        \<not> py_in RATI_NG (decode raw)"
  proof
    assume e: "repair_purchase_history_csv decode raw = decode raw"
    show "\<not> py_in RATI_NG (decode raw)"
    proof
      assume "py_in RATI_NG (decode raw)"
      then have "length (replace RATI_NG RATING (decode raw)) < length (decode raw)"
        by (rule replace_RATI_NG_shorter)
      with e r show False by simp
    qed
  next
    assume "\<not> py_in RATI_NG (decode raw)"
    then show "repair_purchase_history_csv decode raw = decode raw"
      by (simp add: r replace_absent RATI_NG_nonempty)
  qed
qed

theorem fallback_returns_text_after_replace_witness:
  "\<not> header_fine (ascii (''a,b'' @ [CHR 0x0A] @ ''1,2'' @ [CHR 0x0A]))
   \<and> scan_header []
        (splitlines (replace RATI_NG RATING (ascii (''a,b'' @ [CHR 0x0A] @ ''1,2'' @ [CHR 0x0A]))))
       = None
   \<and> \<not> py_in RATI_NG (ascii (''a,b'' @ [CHR 0x0A] @ ''1,2'' @ [CHR 0x0A]))
   \<and> repair_purchase_history_csv ascii (''a,b'' @ [CHR 0x0A] @ ''1,2'' @ [CHR 0x0A])
       = ascii (''a,b'' @ [CHR 0x0A] @ ''1,2'' @ [CHR 0x0A])
   \<and> \<not> header_fine (ascii (''a,rati'' @ [CHR 0x0A] @ ''ng'' @ [CHR 0x0A]))
   \<and> scan_header []
        (splitlines (replace RATI_NG RATING
           (ascii (''a,rati'' @ [CHR 0x0A] @ ''ng'' @ [CHR 0x0A]))))
       = None
   \<and> py_in RATI_NG (ascii (''a,rati'' @ [CHR 0x0A] @ ''ng'' @ [CHR 0x0A]))
   \<and> repair_purchase_history_csv ascii (''a,rati'' @ [CHR 0x0A] @ ''ng'' @ [CHR 0x0A])
       = ascii (''a,rating'' @ [CHR 0x0A])
   \<and> repair_purchase_history_csv ascii (''a,rati'' @ [CHR 0x0A] @ ''ng'' @ [CHR 0x0A])
       \<noteq> ascii (''a,rati'' @ [CHR 0x0A] @ ''ng'' @ [CHR 0x0A])"
proof -
  let ?raw = "''a,b'' @ [CHR 0x0A] @ ''1,2'' @ [CHR 0x0A]"
  let ?split = "''a,rati'' @ [CHR 0x0A] @ ''ng'' @ [CHR 0x0A]"
  have h1: "\<not> header_fine (ascii ?raw)"
    by (simp add: repair_eval first_line_def)
  have h2: "scan_header [] (splitlines (replace RATI_NG RATING (ascii ?raw))) = None"
    by (simp add: repair_eval)
  have h3: "\<not> py_in RATI_NG (ascii ?raw)"
    by (simp add: repair_eval)
  have g1: "\<not> header_fine (ascii ?split)"
    by (simp add: repair_eval first_line_def)
  have g2: "scan_header [] (splitlines (replace RATI_NG RATING (ascii ?split))) = None"
    by (simp add: repair_eval)
  have g3: "py_in RATI_NG (ascii ?split)"
    by (simp add: repair_eval)
  have g4: "replace RATI_NG RATING (ascii ?split) = ascii (''a,rating'' @ [CHR 0x0A])"
    by (simp add: repair_eval)
  from fallback_returns_text_after_replace [of ascii ?raw] h1 h2 h3
  have c1: "repair_purchase_history_csv ascii ?raw = ascii ?raw"
    by blast
  from fallback_returns_text_after_replace [of ascii ?split] g1 g2 g3
  have c2: "repair_purchase_history_csv ascii ?split = replace RATI_NG RATING (ascii ?split)"
    and c3: "repair_purchase_history_csv ascii ?split \<noteq> ascii ?split"
    by blast+
  from c2 g4 have c2': "repair_purchase_history_csv ascii ?split
      = ascii (''a,rating'' @ [CHR 0x0A])"
    by (simp only:)
  from h1 h2 h3 c1 g1 g2 g3 c2' c3 show ?thesis
    by blast
qed

text \<open>
  Claim C7, as the code has it. A header with all four markers and no newline after it
  is returned with a newline added. A header whose first line, up to the break inside
  \<open>rating\<close>, already holds \<open>rating\<close> and \<open>occasion\<close> is returned as it is, and its first
  line lacks \<open>user_id\<close>.
\<close>

theorem repair_not_always_as_claimed:
  "repair_text (ascii ''user_id,image_id,rating,occasion'')
     = ascii ''user_id,image_id,rating,occasion'' @ [10]
   \<and> py_in USER_ID (first_line (ascii ''user_id,image_id,rating,occasion''))
   \<and> py_in IMAGE_ID (first_line (ascii ''user_id,image_id,rating,occasion''))
   \<and> py_in RATING (first_line (ascii ''user_id,image_id,rating,occasion''))
   \<and> py_in OCCASION (first_line (ascii ''user_id,image_id,rating,occasion''))
   \<and> first_line (repair_text (ascii ''rating,occasion,'' @ RATI_NG @ ascii '',user_id,image_id''
                                @ [10]))
       = ascii ''rating,occasion,rati''
   \<and> \<not> py_in USER_ID (ascii ''rating,occasion,rati'')
   \<and> py_in USER_ID (ascii ''rating,occasion,'' @ RATING @ ascii '',user_id,image_id'')"
  by (simp add: repair_eval first_line_def)

text \<open>
  Claim C7, amended. Let the header line hold no line boundary and all four markers, and
  let its \<open>rating\<close> be split by a newline after \<open>rati\<close>; unless the text before that
  newline already holds both \<open>rating\<close> and \<open>occasion\<close>, the first line of the repaired
  output holds all four markers. An input with a newline whose first line holds all four
  markers is returned unchanged. A single line without any line boundary that holds all
  four markers is returned with a newline added.
\<close>

theorem repair_header_cases:
  "((\<forall>c\<in>set (a @ b). \<not> is_linebreak c) \<and>
      py_in USER_ID (a @ RATING @ b) \<and> py_in IMAGE_ID (a @ RATING @ b) \<and>
      py_in OCCASION (a @ RATING @ b) \<and>
      \<not> (py_in RATING (a @ RATI) \<and> py_in OCCASION (a @ RATI)) \<longrightarrow>
      py_in USER_ID (first_line (repair_text (a @ RATI_NG @ b @ rest))) \<and>
      py_in IMAGE_ID (first_line (repair_text (a @ RATI_NG @ b @ rest))) \<and>
      py_in RATING (first_line (repair_text (a @ RATI_NG @ b @ rest))) \<and>
      py_in OCCASION (first_line (repair_text (a @ RATI_NG @ b @ rest))))
   \<and> (10 \<in> set text \<and> py_in USER_ID (first_line text) \<and> py_in IMAGE_ID (first_line text) \<and>
      py_in RATING (first_line text) \<and> py_in OCCASION (first_line text) \<longrightarrow>
      repair_text text = text)
   \<and> ((\<forall>c\<in>set line. \<not> is_linebreak c) \<and> py_in USER_ID line \<and> py_in IMAGE_ID line \<and>
      py_in RATING line \<and> py_in OCCASION line \<longrightarrow>
      repair_text line = line @ [10])"
proof (intro conjI impI)
  assume h: "(\<forall>c\<in>set (a @ b). \<not> is_linebreak c) \<and>
      py_in USER_ID (a @ RATING @ b) \<and> py_in IMAGE_ID (a @ RATING @ b) \<and>
      py_in OCCASION (a @ RATING @ b) \<and>
      \<not> (py_in RATING (a @ RATI) \<and> py_in OCCASION (a @ RATI))"
  then obtain l where l: "first_line (repair_text (a @ RATI_NG @ b @ rest)) = (a @ RATING @ b) @ l"
    using split_header_first_line [of a b rest] by blast
  have "RATING = [] @ RATING @ []"
    by simp
  then have "py_in RATING RATING"
    unfolding py_in_iff by blast
  from py_in_extend [OF this, of a b] have r: "py_in RATING (a @ RATING @ b)" .
  from h py_in_extend [of USER_ID "a @ RATING @ b" "[]" l]
  show "py_in USER_ID (first_line (repair_text (a @ RATI_NG @ b @ rest)))"
    by (simp add: l)
  from h py_in_extend [of IMAGE_ID "a @ RATING @ b" "[]" l]
  show "py_in IMAGE_ID (first_line (repair_text (a @ RATI_NG @ b @ rest)))"
    by (simp add: l)
  from r py_in_extend [of RATING "a @ RATING @ b" "[]" l]
  show "py_in RATING (first_line (repair_text (a @ RATI_NG @ b @ rest)))"
    by (simp add: l)
  from h py_in_extend [of OCCASION "a @ RATING @ b" "[]" l]
  show "py_in OCCASION (first_line (repair_text (a @ RATI_NG @ b @ rest)))"
    by (simp add: l)
next
  assume "10 \<in> set text \<and> py_in USER_ID (first_line text) \<and> py_in IMAGE_ID (first_line text) \<and>
      py_in RATING (first_line text) \<and> py_in OCCASION (first_line text)"
  then show "repair_text text = text"
    by (simp add: intact_header_unchanged)
next
  assume "(\<forall>c\<in>set line. \<not> is_linebreak c) \<and> py_in USER_ID line \<and> py_in IMAGE_ID line \<and>
      py_in RATING line \<and> py_in OCCASION line"
  then show "repair_text line = line @ [10]"
    by (simp add: single_line_gets_newline)
qed

theorem repair_header_cases_witness:
  "py_in USER_ID (head_a @ RATING @ head_b) \<and> py_in IMAGE_ID (head_a @ RATING @ head_b)
   \<and> py_in OCCASION (head_a @ RATING @ head_b)
   \<and> \<not> (py_in RATING (head_a @ RATI) \<and> py_in OCCASION (head_a @ RATI))
   \<and> py_in USER_ID (first_line (repair_text (head_a @ RATI_NG @ head_b @ body_rows)))
   \<and> py_in IMAGE_ID (first_line (repair_text (head_a @ RATI_NG @ head_b @ body_rows)))
   \<and> py_in RATING (first_line (repair_text (head_a @ RATI_NG @ head_b @ body_rows)))
   \<and> py_in OCCASION (first_line (repair_text (head_a @ RATI_NG @ head_b @ body_rows)))
   \<and> 10 \<in> set (head_a @ RATING @ head_b @ body_rows)
   \<and> py_in USER_ID (first_line (head_a @ RATING @ head_b @ body_rows))
   \<and> py_in IMAGE_ID (first_line (head_a @ RATING @ head_b @ body_rows))
   \<and> py_in RATING (first_line (head_a @ RATING @ head_b @ body_rows))
   \<and> py_in OCCASION (first_line (head_a @ RATING @ head_b @ body_rows))
   \<and> repair_text (head_a @ RATING @ head_b @ body_rows) = head_a @ RATING @ head_b @ body_rows
   \<and> repair_text (head_a @ RATING @ head_b) = (head_a @ RATING @ head_b) @ [10]"
proof -
  let ?hdr = "head_a @ RATING @ head_b"
  let ?split = "head_a @ RATI_NG @ head_b @ body_rows"
  let ?intact = "head_a @ RATING @ head_b @ body_rows"
  note defs = head_a_def head_b_def body_rows_def repair_eval
  note inst = repair_header_cases [of head_a head_b body_rows ?intact ?hdr]
  have nb: "\<forall>c\<in>set (head_a @ head_b). \<not> is_linebreak c"
    by (simp add: defs)
  have nl: "\<forall>c\<in>set ?hdr. \<not> is_linebreak c"
    by (simp add: defs)
  have m: "py_in USER_ID ?hdr" "py_in IMAGE_ID ?hdr" "py_in RATING ?hdr" "py_in OCCASION ?hdr"
    by (simp_all add: defs)
  have nf: "\<not> (py_in RATING (head_a @ RATI) \<and> py_in OCCASION (head_a @ RATI))"
    by (simp add: defs)
  have i: "10 \<in> set ?intact" "py_in USER_ID (first_line ?intact)"
    "py_in IMAGE_ID (first_line ?intact)" "py_in RATING (first_line ?intact)"
    "py_in OCCASION (first_line ?intact)"
    by (simp_all add: defs)
  from inst nb m nf
  have c1: "py_in USER_ID (first_line (repair_text ?split)) \<and>
      py_in IMAGE_ID (first_line (repair_text ?split)) \<and>
      py_in RATING (first_line (repair_text ?split)) \<and>
      py_in OCCASION (first_line (repair_text ?split))"
    by blast
  from inst i have c2: "repair_text ?intact = ?intact"
    by blast
  from inst nl m have c3: "repair_text ?hdr = ?hdr @ [10]"
    by blast
  from m nf c1 i c2 c3 show ?thesis
    by blast
qed

end
